theory Spec2Isabelle
  imports Main "HOL-Library.Sublist"
begin

section \<open>Strings\<close>

text \<open>
  JavaScript strings are modelled as \<^typ>\<open>string\<close>. The code points that
  \<^verbatim>\<open>String.prototype.trim\<close> strips and that fit this type are TAB, LF, VT, FF,
  CR, SPACE and NBSP.
\<close>

definition is_ws :: "char \<Rightarrow> bool" where
  "is_ws c = (of_char c \<in> {9, 10, 11, 12, 13, 32, 160 :: nat})"

definition trim :: "string \<Rightarrow> string" where
  "trim s = rev (dropWhile is_ws (rev (dropWhile is_ws s)))"

definition startsWith :: "string \<Rightarrow> string \<Rightarrow> bool" where
  "startsWith s p = (take (length p) s = p)"

section \<open>The path module (POSIX flavour)\<close>

text \<open>
  \<^verbatim>\<open>server.ts\<close> calls \<^verbatim>\<open>path.isAbsolute\<close>, \<^verbatim>\<open>path.resolve\<close>,
  \<^verbatim>\<open>path.normalize\<close>, \<^verbatim>\<open>path.dirname\<close> and \<^verbatim>\<open>path.sep\<close> of the Node.js
  runtime. They are modelled here as Node's \<^verbatim>\<open>path.posix\<close> computes them, on
  the segments between separators.
\<close>

definition sep :: string where
  "sep = ''/''"

fun split_sep :: "string \<Rightarrow> string list" where
  "split_sep [] = [[]]"
| "split_sep (c # cs) =
     (if c = CHR ''/'' then [] # split_sep cs
      else (case split_sep cs of [] \<Rightarrow> [[c]] | w # ws \<Rightarrow> (c # w) # ws))"

fun join_sep :: "string list \<Rightarrow> string" where
  "join_sep [] = []"
| "join_sep [s] = s"
| "join_sep (s # t # ss) = s @ CHR ''/'' # join_sep (t # ss)"

text \<open>
  One segment of \<^verbatim>\<open>normalizeString\<close>: the result so far is kept as a stack (last
  segment first). An empty segment and \<^verbatim>\<open>.\<close> are skipped; \<^verbatim>\<open>..\<close> removes the last
  segment unless there is none or it is \<^verbatim>\<open>..\<close> itself, in which case it is kept only
  when \<^verbatim>\<open>allowAboveRoot\<close> holds.
\<close>

definition norm_step :: "bool \<Rightarrow> string list \<Rightarrow> string \<Rightarrow> string list" where
  "norm_step allowAboveRoot res seg =
     (if seg = [] \<or> seg = ''.'' then res
      else if seg = ''..'' then
        (if res \<noteq> [] \<and> hd res \<noteq> ''..'' then tl res
         else if allowAboveRoot then ''..'' # res else res)
      else seg # res)"

definition normalizeString :: "bool \<Rightarrow> string \<Rightarrow> string" where
  "normalizeString allowAboveRoot p =
     join_sep (rev (foldl (norm_step allowAboveRoot) [] (split_sep p)))"

definition isAbsolute :: "string \<Rightarrow> bool" where
  "isAbsolute p = (p \<noteq> [] \<and> hd p = CHR ''/'')"

text \<open>
  \<^verbatim>\<open>path.resolve\<close> walks its arguments from the right, then the working directory,
  prepending each non-empty one until an absolute one has been prepended.
\<close>

fun resolve_walk :: "string list \<Rightarrow> string \<Rightarrow> bool \<times> string" where
  "resolve_walk [] resolvedPath = (False, resolvedPath)"
| "resolve_walk (p # ps) resolvedPath =
     (if p = [] then resolve_walk ps resolvedPath
      else if hd p = CHR ''/'' then (True, p @ CHR ''/'' # resolvedPath)
      else resolve_walk ps (p @ CHR ''/'' # resolvedPath))"

definition resolve :: "string \<Rightarrow> string list \<Rightarrow> string" where
  "resolve cwd args =
     (case resolve_walk (rev (cwd # args)) [] of
        (resolvedAbsolute, resolvedPath) \<Rightarrow>
          (let n = normalizeString (\<not> resolvedAbsolute) resolvedPath
           in if resolvedAbsolute then CHR ''/'' # n
              else if n \<noteq> [] then n else ''.''))"

definition normalize :: "string \<Rightarrow> string" where
  "normalize p =
     (if p = [] then ''.''
      else
        (let isAbs = (hd p = CHR ''/'');
             trailingSeparator = (last p = CHR ''/'');
             n = normalizeString (\<not> isAbs) p
         in if n = [] then (if isAbs then ''/'' else if trailingSeparator then ''./'' else ''.'')
            else
              (let n' = (if trailingSeparator then n @ ''/'' else n)
               in if isAbs then CHR ''/'' # n' else n')))"

text \<open>
  \<^verbatim>\<open>path.dirname\<close> scans from the end down to index 1: it skips trailing
  separators, then the last segment, and cuts at the separator before it.
\<close>

definition dirname :: "string \<Rightarrow> string" where
  "dirname p =
     (if p = [] then ''.''
      else
        (let hasRoot = (hd p = CHR ''/'');
             scanned = dropWhile (\<lambda>c. c \<noteq> CHR ''/'')
                         (dropWhile (\<lambda>c. c = CHR ''/'') (rev (tl p)));
             end = length scanned
         in if scanned = [] then (if hasRoot then ''/'' else ''.'')
            else if hasRoot \<and> end = 1 then ''//''
            else take end p))"

section \<open>Configuration and the path helper\<close>

text \<open>
  The process environment: the working directory and the variable
  \<^verbatim>\<open>ALLOWED_BASE\<close>. \<^verbatim>\<open>allowedBaseAbs\<close> is computed once, at start.
\<close>

record env =
  cwd :: string
  ALLOWED_BASE :: string

definition allowedBaseAbs :: "env \<Rightarrow> string" where
  "allowedBaseAbs e = resolve (cwd e) [ALLOWED_BASE e]"

datatype error =
    PathNotAllowed string string
  | NotAFile string
  | CannotDeleteRoot
  | ENOENT string
  | EISDIR string
  | ENOTDIR string
  | EEXIST string
  | NameRefused string
  | InvalidParams

definition safePath :: "env \<Rightarrow> string option \<Rightarrow> error + string" where
  "safePath e raw =
     (let trimmed = trim (case raw of None \<Rightarrow> [] | Some r \<Rightarrow> r)
      in if trimmed = [] \<or> trimmed = ''.'' then Inr (allowedBaseAbs e)
         else
           (let abs' = (if isAbsolute trimmed then resolve (cwd e) [trimmed]
                       else resolve (cwd e) [allowedBaseAbs e, trimmed]);
                normAbs = normalize abs';
                normBase = normalize (allowedBaseAbs e)
            in if \<not> startsWith normAbs (normBase @ sep) \<and> normAbs \<noteq> normBase
               then Inl (PathNotAllowed normAbs normBase)
               else Inr normAbs))"

section \<open>What a requested path denotes\<close>

text \<open>
  The meaning of a path, independent of how \<^verbatim>\<open>safePath\<close> computes with strings: a
  location is the list of directory names leading to it from the filesystem root.
  Following a path from a location, an empty segment and \<^verbatim>\<open>.\<close> stay, \<^verbatim>\<open>..\<close> goes to
  the parent (the root is its own parent), and a name goes down.
\<close>

definition walk_step :: "string list \<Rightarrow> string \<Rightarrow> string list" where
  "walk_step loc seg =
     (if seg = [] \<or> seg = ''.'' then loc
      else if seg = ''..'' then butlast loc
      else loc @ [seg])"

definition walk :: "string list \<Rightarrow> string list \<Rightarrow> string list" where
  "walk loc segs = foldl walk_step loc segs"

definition path_segments :: "string \<Rightarrow> string list" where
  "path_segments p = filter (\<lambda>s. s \<noteq> []) (split_sep p)"

definition canon :: "string list \<Rightarrow> string" where
  "canon segs = CHR ''/'' # join_sep segs"

definition root_location :: "env \<Rightarrow> string list" where
  "root_location e = path_segments (allowedBaseAbs e)"

text \<open>
  The location a requested path denotes: the trimmed request is followed from the
  filesystem root when it is absolute and from Root otherwise (so the empty request
  and \<^verbatim>\<open>.\<close> denote Root). The normalized candidate is that location written as a
  path.
\<close>

definition requested :: "string option \<Rightarrow> string" where
  "requested raw = trim (case raw of None \<Rightarrow> [] | Some r \<Rightarrow> r)"

definition target_location :: "env \<Rightarrow> string option \<Rightarrow> string list" where
  "target_location e raw =
     (if isAbsolute (requested raw) then walk [] (split_sep (requested raw))
      else walk (root_location e) (split_sep (requested raw)))"

definition candidate :: "env \<Rightarrow> string option \<Rightarrow> string" where
  "candidate e raw = canon (target_location e raw)"

definition accepted :: "error + string \<Rightarrow> bool" where
  "accepted r = (case r of Inl _ \<Rightarrow> False | Inr _ \<Rightarrow> True)"

text \<open>
  The form of a resolved path relative to Root, as \<^verbatim>\<open>path.relative(Root, p)\<close> gives
  it for a path \<open>p\<close> that is Root or starts with Root and a separator.
\<close>

definition relative_to_root :: "env \<Rightarrow> string \<Rightarrow> string" where
  "relative_to_root e p =
     (if p = allowedBaseAbs e then []
      else if allowedBaseAbs e = ''/'' then drop 1 p
      else drop (length (allowedBaseAbs e) + 1) p)"

definition clean_seg :: "string \<Rightarrow> bool" where
  "clean_seg s = (s \<noteq> [] \<and> s \<noteq> ''.'' \<and> s \<noteq> ''..'' \<and> CHR ''/'' \<notin> set s)"

section \<open>The path helper on any platform\<close>

text \<open>
  \<^verbatim>\<open>safePath\<close> reads the platform through \<^verbatim>\<open>path.sep\<close>, \<^verbatim>\<open>path.isAbsolute\<close>,
  \<^verbatim>\<open>path.resolve\<close> and \<^verbatim>\<open>path.normalize\<close> only. With these four as parameters
  the same function is \<open>safePath_on\<close>, the second argument being the value of
  \<^verbatim>\<open>allowedBaseAbs\<close>; with those of \<^verbatim>\<open>path.posix\<close> it is \<open>safePath\<close> above.
  The normalized candidate of a request, as the code computes it: Root for the empty
  request and for \<^verbatim>\<open>.\<close>, otherwise the normalized resolution of the request, taken
  alone when it is absolute and after Root when it is not.
\<close>

record path_module =
  pm_sep :: string
  pm_isAbsolute :: "string \<Rightarrow> bool"
  pm_resolve :: "string list \<Rightarrow> string"
  pm_normalize :: "string \<Rightarrow> string"

definition safePath_on :: "path_module \<Rightarrow> string \<Rightarrow> string option \<Rightarrow> error + string" where
  "safePath_on P allowedBase raw =
     (let trimmed = trim (case raw of None \<Rightarrow> [] | Some r \<Rightarrow> r)
      in if trimmed = [] \<or> trimmed = ''.'' then Inr allowedBase
         else
           (let abs' = (if pm_isAbsolute P trimmed then pm_resolve P [trimmed]
                       else pm_resolve P [allowedBase, trimmed]);
                normAbs = pm_normalize P abs';
                normBase = pm_normalize P allowedBase
            in if \<not> startsWith normAbs (normBase @ pm_sep P) \<and> normAbs \<noteq> normBase
               then Inl (PathNotAllowed normAbs normBase)
               else Inr normAbs))"

definition posix_module :: "string \<Rightarrow> path_module" where
  "posix_module c =
     \<lparr>pm_sep = sep, pm_isAbsolute = isAbsolute, pm_resolve = resolve c, pm_normalize = normalize\<rparr>"

definition candidate_on :: "path_module \<Rightarrow> string \<Rightarrow> string option \<Rightarrow> string" where
  "candidate_on P root raw =
     (if requested raw = [] \<or> requested raw = ''.'' then root
      else pm_normalize P
             (if pm_isAbsolute P (requested raw) then pm_resolve P [requested raw]
              else pm_resolve P [root, requested raw]))"

section \<open>The path module (Windows flavour)\<close>

text \<open>
  Node's \<^verbatim>\<open>path.win32\<close>: a separator is a slash or a backslash, a path may begin with
  a device (a drive letter and a colon, or the server and share of a UNC path), devices
  are compared without regard to case, and every drive has a working directory of its
  own (\<^verbatim>\<open>process.env["=X:"]\<close>). Segments are treated as in \<open>norm_step\<close> and joined
  with backslashes.
\<close>

definition backslash :: char where
  "backslash = CHR 0x5C"

definition isPathSeparator :: "char \<Rightarrow> bool" where
  "isPathSeparator c = (c = CHR ''/'' \<or> c = backslash)"

definition isWindowsDeviceRoot :: "char \<Rightarrow> bool" where
  "isWindowsDeviceRoot c =
     ((65 \<le> (of_char c :: nat) \<and> (of_char c :: nat) \<le> 90) \<or>
      (97 \<le> (of_char c :: nat) \<and> (of_char c :: nat) \<le> 122))"

definition to_lower :: "char \<Rightarrow> char" where
  "to_lower c =
     (let n = (of_char c :: nat)
      in if (65 \<le> n \<and> n \<le> 90) \<or> (192 \<le> n \<and> n \<le> 222 \<and> n \<noteq> 215)
         then char_of (n + 32) else c)"

fun split_by :: "(char \<Rightarrow> bool) \<Rightarrow> string \<Rightarrow> string list" where
  "split_by isSep [] = [[]]"
| "split_by isSep (c # cs) =
     (if isSep c then [] # split_by isSep cs
      else (case split_by isSep cs of [] \<Rightarrow> [[c]] | w # ws \<Rightarrow> (c # w) # ws))"

fun join_by :: "char \<Rightarrow> string list \<Rightarrow> string" where
  "join_by s [] = []"
| "join_by s [x] = x"
| "join_by s (x # y # zs) = x @ s # join_by s (y # zs)"

definition win32_normalizeString :: "bool \<Rightarrow> string \<Rightarrow> string" where
  "win32_normalizeString allowAboveRoot p =
     join_by backslash (rev (foldl (norm_step allowAboveRoot) [] (split_by isPathSeparator p)))"

definition win32_unc :: "string \<Rightarrow> (string \<times> nat) option" where
  "win32_unc p =
     (let firstPart = takeWhile (\<lambda>c. \<not> isPathSeparator c) (drop 2 p);
          afterFirst = dropWhile (\<lambda>c. \<not> isPathSeparator c) (drop 2 p);
          atSecond = dropWhile isPathSeparator afterFirst;
          secondPart = takeWhile (\<lambda>c. \<not> isPathSeparator c) atSecond;
          afterSecond = dropWhile (\<lambda>c. \<not> isPathSeparator c) atSecond
      in if firstPart \<noteq> [] \<and> afterFirst \<noteq> [] \<and> atSecond \<noteq> []
         then Some ([backslash, backslash] @ firstPart @ [backslash] @ secondPart,
                    length p - length afterSecond)
         else None)"

definition win32_root :: "string \<Rightarrow> string \<times> nat \<times> bool" where
  "win32_root p =
     (case p of
        [] \<Rightarrow> ([], 0, False)
      | [c] \<Rightarrow> if isPathSeparator c then ([], 1, True) else ([], 0, False)
      | c # d # rest \<Rightarrow>
          if isPathSeparator c then
            (if isPathSeparator d then
               (case win32_unc p of Some (device, j) \<Rightarrow> (device, j, True) | None \<Rightarrow> ([], 0, True))
             else ([], 1, True))
          else if isWindowsDeviceRoot c \<and> d = CHR '':'' then
            (if rest \<noteq> [] \<and> isPathSeparator (hd rest) then ([c, d], 3, True)
             else ([c, d], 2, False))
          else ([], 0, False))"

definition win32_isAbsolute :: "string \<Rightarrow> bool" where
  "win32_isAbsolute p =
     (case p of
        [] \<Rightarrow> False
      | c # rest \<Rightarrow>
          isPathSeparator c \<or>
          (case rest of
             d # x # _ \<Rightarrow> isWindowsDeviceRoot c \<and> d = CHR '':'' \<and> isPathSeparator x
           | _ \<Rightarrow> False))"

record win_env =
  win_cwd :: string
  drive_cwd :: "string \<Rightarrow> string option"

definition win32_cwd_for :: "win_env \<Rightarrow> string \<Rightarrow> string" where
  "win32_cwd_for e resolvedDevice =
     (if resolvedDevice = [] then win_cwd e
      else
        (let p = (case drive_cwd e resolvedDevice of
                    None \<Rightarrow> win_cwd e
                  | Some d \<Rightarrow> if d = [] then win_cwd e else d)
         in if map to_lower (take 2 p) \<noteq> map to_lower resolvedDevice \<and>
               2 < length p \<and> p ! 2 = backslash
            then resolvedDevice @ [backslash] else p))"

definition win32_resolve_step ::
  "string \<Rightarrow> string \<times> string \<times> bool \<Rightarrow> bool \<times> (string \<times> string \<times> bool)" where
  "win32_resolve_step p st =
     (case st of (resolvedDevice, resolvedTail, resolvedAbsolute) \<Rightarrow>
      (case win32_root p of (device, rootEnd, isAbs) \<Rightarrow>
         if device \<noteq> [] \<and> resolvedDevice \<noteq> [] \<and>
            map to_lower device \<noteq> map to_lower resolvedDevice
         then (False, st)
         else
           (let rd = (if device \<noteq> [] \<and> resolvedDevice = [] then device else resolvedDevice)
            in if resolvedAbsolute then (rd \<noteq> [], (rd, resolvedTail, resolvedAbsolute))
               else (isAbs \<and> rd \<noteq> [],
                     (rd, drop rootEnd p @ backslash # resolvedTail, isAbs)))))"

fun win32_resolve_loop ::
  "win_env \<Rightarrow> string list \<Rightarrow> string \<times> string \<times> bool \<Rightarrow> string \<times> string \<times> bool" where
  "win32_resolve_loop e [] st = snd (win32_resolve_step (win32_cwd_for e (fst st)) st)"
| "win32_resolve_loop e (p # ps) st =
     (if p = [] then win32_resolve_loop e ps st
      else (case win32_resolve_step p st of
              (True, st') \<Rightarrow> st'
            | (False, st') \<Rightarrow> win32_resolve_loop e ps st'))"

definition win32_resolve :: "win_env \<Rightarrow> string list \<Rightarrow> string" where
  "win32_resolve e args =
     (case win32_resolve_loop e (rev args) ([], [], False) of
        (resolvedDevice, resolvedTail, resolvedAbsolute) \<Rightarrow>
          (let t = win32_normalizeString (\<not> resolvedAbsolute) resolvedTail
           in if resolvedAbsolute then resolvedDevice @ backslash # t
              else if resolvedDevice @ t \<noteq> [] then resolvedDevice @ t else ''.''))"

definition win32_normalize :: "string \<Rightarrow> string" where
  "win32_normalize p =
     (case p of
        [] \<Rightarrow> ''.''
      | [c] \<Rightarrow> if c = CHR ''/'' then [backslash] else p
      | c # d # rest \<Rightarrow>
          (case win32_root p of (device, rootEnd, isAbs) \<Rightarrow>
             if device \<noteq> [] \<and> isPathSeparator c \<and> rootEnd = length p
             then device @ [backslash]
             else
               (let tail0 = (if rootEnd < length p
                             then win32_normalizeString (\<not> isAbs) (drop rootEnd p) else []);
                    tail1 = (if tail0 = [] \<and> \<not> isAbs then ''.'' else tail0);
                    tail2 = (if tail1 \<noteq> [] \<and> isPathSeparator (last p)
                             then tail1 @ [backslash] else tail1)
                in if isAbs then device @ backslash # tail2 else device @ tail2)))"

definition win32_module :: "win_env \<Rightarrow> path_module" where
  "win32_module e =
     \<lparr>pm_sep = [backslash], pm_isAbsolute = win32_isAbsolute, pm_resolve = win32_resolve e,
      pm_normalize = win32_normalize\<rparr>"

text \<open>
  What a Windows path string denotes: its volume (the drive, or the server and share)
  and the names after it.
\<close>

datatype volume = NoVolume | Drive char | Share string string

definition win32_pieces :: "string \<Rightarrow> string list" where
  "win32_pieces s = filter (\<lambda>x. x \<noteq> []) (split_by isPathSeparator s)"

definition win32_location :: "string \<Rightarrow> volume \<times> string list" where
  "win32_location s =
     (case s of
        a # b # rest \<Rightarrow>
          if isPathSeparator a \<and> isPathSeparator b then
            (case win32_pieces s of
               server # share # segs \<Rightarrow> (Share server share, segs)
             | _ \<Rightarrow> (NoVolume, win32_pieces s))
          else if isWindowsDeviceRoot a \<and> b = CHR '':'' then (Drive a, win32_pieces rest)
          else (NoVolume, win32_pieces s)
      | _ \<Rightarrow> (NoVolume, win32_pieces s))"

definition win32_volume :: "string \<Rightarrow> volume" where
  "win32_volume s = fst (win32_location s)"

definition win32_segments :: "string \<Rightarrow> string list" where
  "win32_segments s = snd (win32_location s)"

text \<open>
  A name of a Windows path: a clean segment without a backslash. The path of a drive
  and a list of names below its root, as \<^verbatim>\<open>path.resolve\<close> writes it.
\<close>

definition win32_clean :: "string \<Rightarrow> bool" where
  "win32_clean s = (clean_seg s \<and> backslash \<notin> set s)"

definition drive_path :: "char \<Rightarrow> string list \<Rightarrow> string" where
  "drive_path d segs = d # CHR '':'' # backslash # join_by backslash segs"

section \<open>The filesystem\<close>

text \<open>
  \<^verbatim>\<open>fs/promises\<close> is modelled on a tree of directories and regular files, keyed by
  absolute path; there are no symbolic links, no permissions and no device errors.
  Every call is recorded in \<open>fs_calls\<close>, and every \<^verbatim>\<open>console.log\<close> line in
  \<open>console\<close> (the tool's tag and the values interpolated into the line).
  File contents are bytes. Three things of the runtime and the host are not defined
  here and are carried by the world, which never changes them: the UTF-8 encoder that
  \<^verbatim>\<open>writeFile\<close> and \<^verbatim>\<open>appendFile\<close> apply to a string, the decoder
  of \<^verbatim>\<open>Buffer.toString("utf8")\<close> (which answers every byte sequence, with
  replacement characters where it is cut or invalid), and the path names that
  \<^verbatim>\<open>fs\<close> accepts (Node refuses a path with a NUL byte, the host an over-long
  name).
\<close>

datatype node = File string | Dir

datatype stats = RegularFile | Directory

datatype fs_call =
    Stat string
  | ReadFile string
  | Mkdir string
  | WriteFile string string
  | AppendFile string string
  | Rm string
  | Unlink string

datatype log_line = Log string "string list"

record world =
  files :: "string \<rightharpoonup> node"
  fs_calls :: "fs_call list"
  console :: "log_line list"
  utf8_encode :: "string \<Rightarrow> string"
  utf8_decode :: "string \<Rightarrow> string"
  name_accepted :: "string \<Rightarrow> bool"

definition called :: "fs_call \<Rightarrow> world \<Rightarrow> world" where
  "called c w = w\<lparr>fs_calls := fs_calls w @ [c]\<rparr>"

definition console_log :: "log_line \<Rightarrow> world \<Rightarrow> world" where
  "console_log l w = w\<lparr>console := console w @ [l]\<rparr>"

definition ancestors :: "string \<Rightarrow> string list" where
  "ancestors p = map canon (prefixes (path_segments p))"

definition is_file :: "node option \<Rightarrow> bool" where
  "is_file n = (case n of Some (File _) \<Rightarrow> True | _ \<Rightarrow> False)"

text \<open>
  The error for a path that does not exist: a regular file on the way to it makes it
  \<^verbatim>\<open>ENOTDIR\<close>, otherwise it is \<^verbatim>\<open>ENOENT\<close>.
\<close>

definition absent_error :: "world \<Rightarrow> string \<Rightarrow> error" where
  "absent_error w p =
     (if list_ex (\<lambda>a. is_file (files w a)) (ancestors (dirname p)) then ENOTDIR p
      else ENOENT p)"

definition fs_stat :: "string \<Rightarrow> world \<Rightarrow> (error + stats) \<times> world" where
  "fs_stat p w =
     (if \<not> name_accepted w p then Inl (NameRefused p)
      else case files w p of
             None \<Rightarrow> Inl (absent_error w p)
           | Some Dir \<Rightarrow> Inr Directory
           | Some (File _) \<Rightarrow> Inr RegularFile,
      called (Stat p) w)"

definition fs_readFile :: "string \<Rightarrow> world \<Rightarrow> (error + string) \<times> world" where
  "fs_readFile p w =
     (if \<not> name_accepted w p then Inl (NameRefused p)
      else case files w p of
             None \<Rightarrow> Inl (absent_error w p)
           | Some Dir \<Rightarrow> Inl (EISDIR p)
           | Some (File b) \<Rightarrow> Inr b,
      called (ReadFile p) w)"

text \<open>
  \<^verbatim>\<open>fs.mkdir(p, {recursive: true})\<close>: every missing directory on the way to
  \<open>p\<close> is created; an existing directory is no error; a regular file on the way
  is one.
\<close>

definition fs_mkdir_recursive :: "string \<Rightarrow> world \<Rightarrow> (error + unit) \<times> world" where
  "fs_mkdir_recursive p w =
     (let w' = called (Mkdir p) w
      in if \<not> name_accepted w p then (Inl (NameRefused p), w')
         else if list_ex (\<lambda>a. is_file (files w a)) (ancestors p)
         then (Inl (if is_file (files w p) then EEXIST p else ENOTDIR p), w')
         else (Inr (), w'\<lparr>files := fold (\<lambda>a m. m(a \<mapsto> Dir)) (ancestors p) (files w)\<rparr>))"

definition fs_writeFile :: "string \<Rightarrow> string \<Rightarrow> world \<Rightarrow> (error + unit) \<times> world" where
  "fs_writeFile p text w =
     (let w' = called (WriteFile p text) w
      in if \<not> name_accepted w p then (Inl (NameRefused p), w')
         else case files w p of
           Some Dir \<Rightarrow> (Inl (EISDIR p), w')
         | _ \<Rightarrow>
           (case files w (dirname p) of
              None \<Rightarrow> (Inl (absent_error w p), w')
            | Some (File _) \<Rightarrow> (Inl (ENOTDIR p), w')
            | Some Dir \<Rightarrow>
                (Inr (), w'\<lparr>files := (files w)(p \<mapsto> File (utf8_encode w text))\<rparr>)))"

definition fs_appendFile :: "string \<Rightarrow> string \<Rightarrow> world \<Rightarrow> (error + unit) \<times> world" where
  "fs_appendFile p text w =
     (let w' = called (AppendFile p text) w
      in if \<not> name_accepted w p then (Inl (NameRefused p), w')
         else case files w p of
           Some Dir \<Rightarrow> (Inl (EISDIR p), w')
         | Some (File old) \<Rightarrow>
             (Inr (), w'\<lparr>files := (files w)(p \<mapsto> File (old @ utf8_encode w text))\<rparr>)
         | None \<Rightarrow>
           (case files w (dirname p) of
              None \<Rightarrow> (Inl (absent_error w p), w')
            | Some (File _) \<Rightarrow> (Inl (ENOTDIR p), w')
            | Some Dir \<Rightarrow>
                (Inr (), w'\<lparr>files := (files w)(p \<mapsto> File (utf8_encode w text))\<rparr>)))"

text \<open>\<^verbatim>\<open>fs.rm(p, {recursive: true, force: true})\<close> removes \<open>p\<close> and all below it.\<close>

definition fs_rm_recursive_force :: "string \<Rightarrow> world \<Rightarrow> (error + unit) \<times> world" where
  "fs_rm_recursive_force p w =
     (if \<not> name_accepted w p then (Inl (NameRefused p), called (Rm p) w)
      else
        (Inr (),
         (called (Rm p) w)\<lparr>files :=
            (\<lambda>q. if q = p \<or> startsWith q (p @ sep) then None else files w q)\<rparr>))"

definition fs_unlink :: "string \<Rightarrow> world \<Rightarrow> (error + unit) \<times> world" where
  "fs_unlink p w =
     (let w' = called (Unlink p) w
      in if \<not> name_accepted w p then (Inl (NameRefused p), w')
         else case files w p of
           None \<Rightarrow> (Inl (absent_error w p), w')
         | Some Dir \<Rightarrow> (Inl (EISDIR p), w')
         | Some (File _) \<Rightarrow> (Inr (), w'\<lparr>files := (files w)(p := None)\<rparr>))"

section \<open>The tools\<close>

text \<open>
  A handler receives \<^verbatim>\<open>args: any\<close>; every field it reads may be absent. It
  returns the text of its result, or the error it throws, and the world it leaves.
\<close>

record tool_args =
  path :: "string option"
  maxBytes :: "nat option"
  content :: "string option"

fun show_nat :: "nat \<Rightarrow> string" where
  "show_nat n =
     (if n < 10 then [char_of (48 + n)]
      else show_nat (n div 10) @ [char_of (48 + n mod 10)])"

declare show_nat.simps [simp del]

definition show_arg :: "string option \<Rightarrow> string" where
  "show_arg a = (case a of None \<Rightarrow> ''undefined'' | Some s \<Rightarrow> s)"

definition content_length :: "tool_args \<Rightarrow> nat" where
  "content_length args = (case content args of None \<Rightarrow> 0 | Some c \<Rightarrow> length c)"

definition content_or_empty :: "tool_args \<Rightarrow> string" where
  "content_or_empty args = (case content args of None \<Rightarrow> [] | Some c \<Rightarrow> c)"

definition default_limit :: nat where
  "default_limit = 1024 * 1024"

definition fs_read :: "env \<Rightarrow> tool_args \<Rightarrow> world \<Rightarrow> (error + string) \<times> world" where
  "fs_read e args w =
     (case safePath e (path args) of
        Inl err \<Rightarrow> (Inl err, w)
      | Inr abs' \<Rightarrow>
        (let w1 = console_log (Log ''fs_read'' [show_arg (path args), abs']) w
         in case fs_stat abs' w1 of
              (Inl err, w2) \<Rightarrow> (Inl err, w2)
            | (Inr st, w2) \<Rightarrow>
              if st \<noteq> RegularFile then (Inl (NotAFile abs'), w2)
              else
                (let limit = (case maxBytes args of None \<Rightarrow> default_limit | Some m \<Rightarrow> m)
                 in case fs_readFile abs' w2 of
                      (Inl err, w3) \<Rightarrow> (Inl err, w3)
                    | (Inr buf, w3) \<Rightarrow>
                      (let sliced = take (min (length buf) limit) buf;
                           text = utf8_decode w3 sliced
                       in (Inr text,
                           console_log (Log ''fs_read'' [show_nat (length text)]) w3)))))"

definition read_file :: "env \<Rightarrow> tool_args \<Rightarrow> world \<Rightarrow> (error + string) \<times> world" where
  "read_file e args w =
     (case safePath e (path args) of
        Inl err \<Rightarrow> (Inl err, w)
      | Inr abs' \<Rightarrow>
        (case fs_stat abs' w of
           (Inl err, w2) \<Rightarrow> (Inl err, w2)
         | (Inr st, w2) \<Rightarrow>
           if st \<noteq> RegularFile then (Inl (NotAFile abs'), w2)
           else
             (let limit = (case maxBytes args of None \<Rightarrow> default_limit | Some m \<Rightarrow> m)
              in case fs_readFile abs' w2 of
                   (Inl err, w3) \<Rightarrow> (Inl err, w3)
                 | (Inr buf, w3) \<Rightarrow>
                   (let sliced = take (min (length buf) limit) buf
                    in (Inr (utf8_decode w3 sliced), w3)))))"

definition fs_write :: "env \<Rightarrow> tool_args \<Rightarrow> world \<Rightarrow> (error + string) \<times> world" where
  "fs_write e args w =
     (case safePath e (path args) of
        Inl err \<Rightarrow> (Inl err, w)
      | Inr abs' \<Rightarrow>
        (let w1 = console_log
                    (Log ''fs_write'' [show_arg (path args), abs', show_nat (content_length args)]) w
         in case fs_mkdir_recursive (dirname abs') w1 of
              (Inl err, w2) \<Rightarrow> (Inl err, w2)
            | (Inr _, w2) \<Rightarrow>
              (case fs_writeFile abs' (content_or_empty args) w2 of
                 (Inl err, w3) \<Rightarrow> (Inl err, w3)
               | (Inr _, w3) \<Rightarrow>
                 (Inr (''Written '' @ show_nat (content_length args) @ '' chars to '' @ abs'),
                  w3))))"

definition write_file :: "env \<Rightarrow> tool_args \<Rightarrow> world \<Rightarrow> (error + string) \<times> world" where
  "write_file e args w =
     (case safePath e (path args) of
        Inl err \<Rightarrow> (Inl err, w)
      | Inr abs' \<Rightarrow>
        (case fs_mkdir_recursive (dirname abs') w of
           (Inl err, w2) \<Rightarrow> (Inl err, w2)
         | (Inr _, w2) \<Rightarrow>
           (case fs_writeFile abs' (content_or_empty args) w2 of
              (Inl err, w3) \<Rightarrow> (Inl err, w3)
            | (Inr _, w3) \<Rightarrow>
              (Inr (''Written '' @ show_nat (content_length args) @ '' chars to '' @ abs'),
               w3))))"

definition fs_append :: "env \<Rightarrow> tool_args \<Rightarrow> world \<Rightarrow> (error + string) \<times> world" where
  "fs_append e args w =
     (case safePath e (path args) of
        Inl err \<Rightarrow> (Inl err, w)
      | Inr abs' \<Rightarrow>
        (let w1 = console_log (Log ''fs_append'' [show_arg (path args), abs']) w
         in case fs_mkdir_recursive (dirname abs') w1 of
              (Inl err, w2) \<Rightarrow> (Inl err, w2)
            | (Inr _, w2) \<Rightarrow>
              (case fs_appendFile abs' (content_or_empty args) w2 of
                 (Inl err, w3) \<Rightarrow> (Inl err, w3)
               | (Inr _, w3) \<Rightarrow>
                 (Inr (''Appended '' @ show_nat (content_length args) @ '' chars to '' @ abs'),
                  w3))))"

definition fs_delete :: "env \<Rightarrow> tool_args \<Rightarrow> world \<Rightarrow> (error + string) \<times> world" where
  "fs_delete e args w =
     (case safePath e (path args) of
        Inl err \<Rightarrow> (Inl err, w)
      | Inr abs' \<Rightarrow>
        (let w1 = console_log (Log ''fs_delete'' [show_arg (path args), abs']) w
         in if abs' = allowedBaseAbs e then (Inl CannotDeleteRoot, w1)
            else
              (case fs_stat abs' w1 of
                 (Inl err, w2) \<Rightarrow> (Inl err, w2)
               | (Inr st, w2) \<Rightarrow>
                 (case (if st = Directory then fs_rm_recursive_force abs' w2
                        else fs_unlink abs' w2) of
                    (Inl err, w3) \<Rightarrow> (Inl err, w3)
                  | (Inr _, w3) \<Rightarrow> (Inr (''Deleted: '' @ abs'), w3)))))"

text \<open>
  Each tool is registered with a schema, and the SDK validates the arguments of a call
  against it before it runs the handler; a call that does not fit is answered with
  invalid params (-32602) and the handler does not run. In the schemas of these tools
  \<^verbatim>\<open>path\<close> and \<^verbatim>\<open>content\<close> are \<^verbatim>\<open>z.string()\<close>, so required, and
  \<^verbatim>\<open>maxBytes\<close> is \<^verbatim>\<open>z.number().int().positive().optional()\<close>.
\<close>

datatype tool_name = FsRead | ReadFileAlias | FsWrite | WriteFileAlias | FsAppend | FsDelete

definition schema_accepts :: "tool_name \<Rightarrow> tool_args \<Rightarrow> bool" where
  "schema_accepts t args =
     (case t of
        FsRead \<Rightarrow>
          path args \<noteq> None \<and> (case maxBytes args of None \<Rightarrow> True | Some m \<Rightarrow> 0 < m)
      | ReadFileAlias \<Rightarrow>
          path args \<noteq> None \<and> (case maxBytes args of None \<Rightarrow> True | Some m \<Rightarrow> 0 < m)
      | FsWrite \<Rightarrow> path args \<noteq> None \<and> content args \<noteq> None
      | WriteFileAlias \<Rightarrow> path args \<noteq> None \<and> content args \<noteq> None
      | FsAppend \<Rightarrow> path args \<noteq> None \<and> content args \<noteq> None
      | FsDelete \<Rightarrow> path args \<noteq> None)"

definition handler :: "tool_name \<Rightarrow> env \<Rightarrow> tool_args \<Rightarrow> world \<Rightarrow> (error + string) \<times> world" where
  "handler t =
     (case t of
        FsRead \<Rightarrow> fs_read
      | ReadFileAlias \<Rightarrow> read_file
      | FsWrite \<Rightarrow> fs_write
      | WriteFileAlias \<Rightarrow> write_file
      | FsAppend \<Rightarrow> fs_append
      | FsDelete \<Rightarrow> fs_delete)"

definition call_tool :: "tool_name \<Rightarrow> env \<Rightarrow> tool_args \<Rightarrow> world \<Rightarrow> (error + string) \<times> world" where
  "call_tool t e args w =
     (if schema_accepts t args then handler t e args w else (Inl InvalidParams, w))"

section \<open>Sessions\<close>

text \<open>
  A transport of the SDK is an object with identity: it is modelled as an index into
  the list of all transports created so far, each open or closed. What the transport
  answers to a request handed to it is the SDK's business; the model records only that
  the request was handed to it, and does not follow an exception thrown inside the SDK
  (the route answers 500 then).
\<close>

datatype transport_status = Open | Closed

record SessionEntry =
  transport :: nat
  mcp :: nat

record server =
  sessions :: "string \<rightharpoonup> SessionEntry"
  transports :: "transport_status list"

datatype http_method = GET | POST | DELETE | OtherMethod string

record request =
  req_method :: http_method
  headerSid :: "string option"
  isInitializeRequest :: bool
  body_id :: "string option"

datatype response =
    HandledBy nat
  | JsonRpcError nat int string "string option"
  | Status nat string

text \<open>
  \<^verbatim>\<open>createSession\<close>; the argument is the value \<^verbatim>\<open>randomUUID()\<close> returns.
\<close>

definition createSession :: "string \<Rightarrow> server \<Rightarrow> SessionEntry \<times> server" where
  "createSession sessionId s =
     (let t = length (transports s);
          entry = \<lparr>transport = t, mcp = t\<rparr>
      in (entry,
          s\<lparr>sessions := (sessions s)(sessionId \<mapsto> entry),
            transports := transports s @ [Open]\<rparr>))"

definition lookup_entry :: "request \<Rightarrow> server \<Rightarrow> SessionEntry option" where
  "lookup_entry req s =
     (case headerSid req of
        None \<Rightarrow> None
      | Some sid \<Rightarrow> if sid = [] then None else sessions s sid)"

definition no_session_message :: string where
  "no_session_message = ''Bad Request: no valid session. Send initialize first.''"

definition mcp_route :: "request \<Rightarrow> string \<Rightarrow> server \<Rightarrow> response \<times> server" where
  "mcp_route req uuid s =
     (let entry = lookup_entry req s
      in case req_method req of
           GET \<Rightarrow>
             (case entry of
                None \<Rightarrow> (case createSession uuid s of (created, s') \<Rightarrow> (HandledBy (transport created), s'))
              | Some en \<Rightarrow> (HandledBy (transport en), s))
         | POST \<Rightarrow>
             (case entry of
                None \<Rightarrow>
                  if \<not> isInitializeRequest req
                  then (JsonRpcError 400 (- 32000) no_session_message (body_id req), s)
                  else (case createSession uuid s of
                          (created, s') \<Rightarrow> (HandledBy (transport created), s'))
              | Some en \<Rightarrow> (HandledBy (transport en), s))
         | DELETE \<Rightarrow>
             (case (entry, headerSid req) of
                (Some en, Some sid) \<Rightarrow>
                  (Status 200 [],
                   s\<lparr>transports := (transports s)[transport en := Closed],
                     sessions := (sessions s)(sid := None)\<rparr>)
              | _ \<Rightarrow> (Status 200 [], s))
         | OtherMethod _ \<Rightarrow> (Status 405 ''Method Not Allowed'', s))"

definition admin_clear_sessions :: "server \<Rightarrow> response \<times> server" where
  "admin_clear_sessions s = (Status 200 ''cleared'', s\<lparr>sessions := Map.empty\<rparr>)"

text \<open>
  A run of the server: requests to \<^verbatim>\<open>/mcp\<close>, each with the identifier
  \<^verbatim>\<open>randomUUID()\<close> would return while it is handled, and administrative clears.
\<close>

datatype event = McpRequest request string | AdminClear

definition step_event :: "server \<Rightarrow> event \<Rightarrow> server" where
  "step_event s ev =
     (case ev of
        McpRequest req uuid \<Rightarrow> snd (mcp_route req uuid s)
      | AdminClear \<Rightarrow> snd (admin_clear_sessions s))"

definition run_events :: "event list \<Rightarrow> server \<Rightarrow> server" where
  "run_events evs s = foldl step_event s evs"

text \<open>An event that does not create a session under the identifier \<open>t\<close>.\<close>

definition never_generates :: "string \<Rightarrow> event \<Rightarrow> bool" where
  "never_generates t ev = (case ev of McpRequest _ uuid \<Rightarrow> uuid \<noteq> t | AdminClear \<Rightarrow> True)"

section \<open>Auxiliary notions and example data\<close>

text \<open>The bytes a path holds when it is a regular file, and none otherwise.\<close>

definition old_content :: "world \<Rightarrow> string \<Rightarrow> string" where
  "old_content w p = (case files w p of Some (File b) \<Rightarrow> b | _ \<Rightarrow> [])"

text \<open>
  A path can be written when it is not the filesystem root, its name and its
  directory's name are accepted, it is not a directory, and no directory on the way to
  it is a regular file.
\<close>

definition writable :: "world \<Rightarrow> string \<Rightarrow> bool" where
  "writable w p =
     (p \<noteq> ''/'' \<and> name_accepted w (dirname p) \<and> name_accepted w p \<and>
      files w p \<noteq> Some Dir \<and>
      \<not> list_ex (\<lambda>a. is_file (files w a)) (ancestors (dirname p)))"

text \<open>
  The example world. Its strings are lists of 8-bit characters, so a text of the
  examples has characters up to U+00FF: the encoder gives one byte to a character below
  U+0080 and the two bytes of UTF-8 to the others. The decoder reads these back; a byte
  sequence that is cut, invalid, or encodes a character beyond U+00FF decodes to text
  that such a string cannot hold, and is shown as question marks. The host has the
  usual limits of 255 bytes for a name and 4096 for a path.
\<close>

definition utf8_bytes :: "char \<Rightarrow> string" where
  "utf8_bytes c =
     (let n = (of_char c :: nat)
      in if n < 128 then [c] else [char_of (192 + n div 64), char_of (128 + n mod 64)])"

definition example_encode :: "string \<Rightarrow> string" where
  "example_encode s = concat (map utf8_bytes s)"

fun example_decode :: "string \<Rightarrow> string" where
  "example_decode [] = []"
| "example_decode [b] = (if (of_char b :: nat) < 128 then [b] else ''?'')"
| "example_decode (b # b2 # bs) =
     (let n = (of_char b :: nat); k = (of_char b2 :: nat)
      in if n < 128 then b # example_decode (b2 # bs)
         else if (n = 194 \<or> n = 195) \<and> 128 \<le> k \<and> k < 192
         then char_of ((n - 192) * 64 + (k - 128)) # example_decode bs
         else CHR ''?'' # example_decode (b2 # bs))"

definition posix_name_accepted :: "string \<Rightarrow> bool" where
  "posix_name_accepted p =
     (CHR 0x00 \<notin> set p \<and> length p < 4096 \<and>
      list_all (\<lambda>s. length s \<le> 255) (path_segments p))"

definition base_env :: env where
  "base_env = \<lparr>cwd = ''/srv'', ALLOWED_BASE = ''/base''\<rparr>"

definition base_world :: world where
  "base_world =
     \<lparr>files = [''/'' \<mapsto> Dir, ''/base'' \<mapsto> Dir, ''/base/notes.txt'' \<mapsto> File ''x''],
      fs_calls = [], console = [],
      utf8_encode = example_encode, utf8_decode = example_decode,
      name_accepted = posix_name_accepted\<rparr>"

definition root_by_detour :: tool_args where
  "root_by_detour = \<lparr>path = Some ''sub/..'', maxBytes = None, content = None\<rparr>"

text \<open>
  Windows paths of the examples are written with a slash for each backslash. The
  example process runs in \<^verbatim>\<open>C:\srv\<close>, with no drive-specific working directories.
\<close>

definition win :: "string \<Rightarrow> string" where
  "win s = map (\<lambda>c. if c = CHR ''/'' then backslash else c) s"

definition win_env0 :: win_env where
  "win_env0 = \<lparr>win_cwd = win ''C:/srv'', drive_cwd = (\<lambda>d. None)\<rparr>"


definition no_sessions :: server where
  "no_sessions = \<lparr>sessions = Map.empty, transports = []\<rparr>"

definition initialize_post :: request where
  "initialize_post =
     \<lparr>req_method = POST, headerSid = None, isInitializeRequest = True, body_id = Some ''0''\<rparr>"

definition one_session :: server where
  "one_session = snd (mcp_route initialize_post ''uuid-1'' no_sessions)"

definition stale_get :: request where
  "stale_get =
     \<lparr>req_method = GET, headerSid = Some ''stale'', isInitializeRequest = False, body_id = None\<rparr>"

definition stale_post :: request where
  "stale_post =
     \<lparr>req_method = POST, headerSid = Some ''stale'', isInitializeRequest = False, body_id = Some ''7''\<rparr>"

definition stale_delete :: request where
  "stale_delete =
     \<lparr>req_method = DELETE, headerSid = Some ''stale'', isInitializeRequest = False, body_id = None\<rparr>"

definition close_uuid1 :: request where
  "close_uuid1 =
     \<lparr>req_method = DELETE, headerSid = Some ''uuid-1'', isInitializeRequest = False, body_id = None\<rparr>"

definition call_uuid1 :: request where
  "call_uuid1 =
     \<lparr>req_method = POST, headerSid = Some ''uuid-1'', isInitializeRequest = False, body_id = Some ''2''\<rparr>"

section \<open>Segments, splitting and joining\<close>

lemma split_sep_nonempty: "split_sep s \<noteq> []"
  by (induction s) (auto split: list.splits)

lemma split_sep_append: "split_sep (x @ CHR ''/'' # y) = split_sep x @ split_sep y"
  by (induction x) (auto split: list.splits simp: split_sep_nonempty)

lemma split_sep_no_slash: "CHR ''/'' \<notin> set s \<Longrightarrow> split_sep s = [s]"
  by (induction s) auto

lemma split_sep_elems: "s \<in> set (split_sep p) \<Longrightarrow> CHR ''/'' \<notin> set s"
  by (induction p arbitrary: s) (auto split: if_splits list.splits)

lemma join_sep_Cons: "ss \<noteq> [] \<Longrightarrow> join_sep (s # ss) = s @ CHR ''/'' # join_sep ss"
  by (cases ss) auto

lemma join_sep_append:
  "a \<noteq> [] \<Longrightarrow> b \<noteq> [] \<Longrightarrow> join_sep (a @ b) = join_sep a @ CHR ''/'' # join_sep b"
  by (induction a rule: join_sep.induct) (auto simp: join_sep_Cons)

lemma split_join:
  "segs \<noteq> [] \<Longrightarrow> \<forall>s \<in> set segs. CHR ''/'' \<notin> set s \<Longrightarrow> split_sep (join_sep segs) = segs"
  by (induction segs rule: join_sep.induct) (auto simp: split_sep_no_slash split_sep_append)

lemma clean_no_slash: "list_all clean_seg segs \<Longrightarrow> \<forall>s \<in> set segs. CHR ''/'' \<notin> set s"
  by (auto simp: list_all_iff clean_seg_def)

lemma clean_butlast: "list_all clean_seg segs \<Longrightarrow> list_all clean_seg (butlast segs)"
  by (auto simp: list_all_iff dest: in_set_butlastD)

lemma clean_prefix: "list_all clean_seg segs \<Longrightarrow> prefix x segs \<Longrightarrow> list_all clean_seg x"
  by (auto simp: prefix_def)

lemma join_sep_eq_Nil: "list_all clean_seg segs \<Longrightarrow> (join_sep segs = []) = (segs = [])"
  by (cases segs rule: join_sep.cases) (auto simp: clean_seg_def)

lemma last_join_sep:
  "segs \<noteq> [] \<Longrightarrow> list_all clean_seg segs \<Longrightarrow> last (join_sep segs) \<noteq> CHR ''/''"
  by (induction segs rule: join_sep.induct)
     (auto simp: clean_seg_def join_sep_eq_Nil dest: last_in_set)

lemma hd_join_sep_clean:
  "b \<noteq> [] \<Longrightarrow> list_all clean_seg b \<Longrightarrow> hd (join_sep b) \<noteq> CHR ''/''"
  by (cases b rule: join_sep.cases) (auto simp: clean_seg_def dest: hd_in_set)

section \<open>Following a path\<close>

lemma walk_step_clean:
  "list_all clean_seg loc \<Longrightarrow> CHR ''/'' \<notin> set seg \<Longrightarrow> list_all clean_seg (walk_step loc seg)"
  by (auto simp: walk_step_def clean_seg_def list_all_iff dest: in_set_butlastD)

lemma walk_clean:
  "list_all clean_seg loc \<Longrightarrow> \<forall>s \<in> set segs. CHR ''/'' \<notin> set s \<Longrightarrow>
     list_all clean_seg (walk loc segs)"
  unfolding walk_def
  by (induction segs arbitrary: loc) (auto simp: walk_step_clean)

lemma walk_append: "walk loc (a @ b) = walk (walk loc a) b"
  by (simp add: walk_def)

lemma walk_clean_segs: "list_all clean_seg segs \<Longrightarrow> walk loc segs = loc @ segs"
  unfolding walk_def
  by (induction segs arbitrary: loc) (auto simp: walk_step_def clean_seg_def)

lemma norm_step_walk_step:
  "''..'' \<notin> set loc \<Longrightarrow> norm_step False (rev loc) seg = rev (walk_step loc seg)"
  by (cases loc rule: rev_cases) (auto simp: norm_step_def walk_step_def)

lemma walk_step_nodots: "''..'' \<notin> set loc \<Longrightarrow> ''..'' \<notin> set (walk_step loc seg)"
  by (auto simp: walk_step_def dest: in_set_butlastD)

lemma foldl_norm_step_walk:
  "''..'' \<notin> set loc \<Longrightarrow> foldl (norm_step False) (rev loc) segs = rev (walk loc segs)"
  unfolding walk_def
  by (induction segs arbitrary: loc) (auto simp: norm_step_walk_step walk_step_nodots)

lemma normalizeString_walk: "normalizeString False p = join_sep (walk [] (split_sep p))"
  using foldl_norm_step_walk [of "[]" "split_sep p"] by (simp add: normalizeString_def)

lemma walk_split_clean: "list_all clean_seg (walk [] (split_sep p))"
  by (rule walk_clean) (auto dest: split_sep_elems)

section \<open>Canonical paths\<close>

lemma split_canon:
  "list_all clean_seg segs \<Longrightarrow>
     split_sep (canon segs) = (if segs = [] then [[], []] else [] # segs)"
  by (auto simp: canon_def split_join clean_no_slash)

lemma walk_split_canon:
  "list_all clean_seg segs \<Longrightarrow> walk loc (split_sep (canon segs)) = loc @ segs"
  by (auto simp: split_canon walk_def walk_step_def walk_clean_segs [unfolded walk_def])

lemma path_segments_canon: "list_all clean_seg segs \<Longrightarrow> path_segments (canon segs) = segs"
  by (auto simp: split_canon path_segments_def clean_seg_def list_all_iff filter_id_conv)

lemma isAbsolute_canon: "isAbsolute (canon segs)"
  by (simp add: isAbsolute_def canon_def)

lemma canon_root: "list_all clean_seg segs \<Longrightarrow> (canon segs = ''/'') = (segs = [])"
  by (simp add: canon_def join_sep_eq_Nil)

lemma canon_inject:
  assumes "list_all clean_seg a" and "list_all clean_seg b"
  shows "(canon b = canon a) = (a = b)"
  using path_segments_canon [OF assms(1)] path_segments_canon [OF assms(2)] by metis

lemma normalize_canon: "list_all clean_seg segs \<Longrightarrow> normalize (canon segs) = canon segs"
proof (cases "segs = []")
  case True
  then show ?thesis
    by (simp add: normalize_def canon_def normalizeString_def norm_step_def)
next
  case False
  assume c: "list_all clean_seg segs"
  have n: "normalizeString False (canon segs) = join_sep segs"
    using c walk_split_canon [of segs "[]"] by (simp add: normalizeString_walk)
  have l: "last (canon segs) \<noteq> CHR ''/''"
    using False c last_join_sep [of segs] by (simp add: canon_def join_sep_eq_Nil)
  show ?thesis
    using False c n l by (simp add: normalize_def Let_def join_sep_eq_Nil) (simp add: canon_def)
qed

lemma startsWith_prefix: "startsWith s p = prefix p s"
  by (auto simp: startsWith_def prefix_def) (metis append_take_drop_id)

lemma startsWith_canon:
  assumes "list_all clean_seg a" and "list_all clean_seg b"
  shows "startsWith (canon b) (canon a @ sep) = (a \<noteq> [] \<and> strict_prefix a b)"
proof
  assume "startsWith (canon b) (canon a @ sep)"
  then obtain rest where r: "join_sep b = join_sep a @ CHR ''/'' # rest"
    by (auto simp: startsWith_prefix prefix_def canon_def sep_def)
  have bne: "b \<noteq> []" using r by auto
  have ane: "a \<noteq> []"
  proof
    assume "a = []"
    then have "hd (join_sep b) = CHR ''/''" using r by simp
    then show False using hd_join_sep_clean [OF bne assms(2)] by simp
  qed
  have "b = a @ split_sep rest"
    using split_join [OF bne clean_no_slash [OF assms(2)]]
          split_join [OF ane clean_no_slash [OF assms(1)]] r
    by (simp add: split_sep_append)
  then show "a \<noteq> [] \<and> strict_prefix a b"
    using ane split_sep_nonempty [of rest] by (auto simp: strict_prefix_def prefix_def)
next
  assume "a \<noteq> [] \<and> strict_prefix a b"
  then obtain c where "a \<noteq> []" "c \<noteq> []" "b = a @ c"
    by (auto simp: strict_prefix_def prefix_def)
  then show "startsWith (canon b) (canon a @ sep)"
    by (simp add: startsWith_prefix prefix_def canon_def sep_def join_sep_append)
qed

section \<open>What resolve and safePath compute\<close>

lemma split_trailing: "split_sep (p @ ''/'') = split_sep p @ [[]]"
  using split_sep_append [of p "[]"] by simp

lemma walk_trailing: "walk loc (segs @ [[]]) = walk loc segs"
  by (simp add: walk_def walk_step_def)

lemma walk_empty_segment: "walk loc [[]] = loc"
  by (simp add: walk_def walk_step_def)

lemma resolve_absolute:
  assumes "isAbsolute p"
  shows "resolve c [p] = canon (walk [] (split_sep p))"
  using assms
  by (simp add: resolve_def isAbsolute_def normalizeString_walk canon_def
        split_trailing walk_trailing)

lemma resolve_relative:
  assumes "isAbsolute b" and "t \<noteq> []" and "\<not> isAbsolute t"
  shows "resolve c [b, t] = canon (walk (walk [] (split_sep b)) (split_sep t))"
proof -
  have "split_sep (b @ CHR ''/'' # t @ ''/'') = split_sep b @ split_sep t @ [[]]"
    using split_sep_append [of b "t @ ''/''"] by (simp add: split_trailing)
  then show ?thesis
    using assms
    by (simp add: resolve_def isAbsolute_def normalizeString_walk canon_def walk_append
          walk_empty_segment)
qed

lemma resolve_one:
  assumes "isAbsolute c"
  shows "\<exists>segs. list_all clean_seg segs \<and> resolve c [b] = canon segs"
proof -
  consider "b = []" | "isAbsolute b" | "b \<noteq> []" "\<not> isAbsolute b" by blast
  then show ?thesis
  proof cases
    case 1
    then have "resolve c [b] = canon (walk [] (split_sep c))"
      using assms
      by (simp add: resolve_def isAbsolute_def normalizeString_walk canon_def
            split_trailing walk_trailing)
    then show ?thesis using walk_split_clean by metis
  next
    case 2
    then show ?thesis using resolve_absolute walk_split_clean by metis
  next
    case 3
    have "split_sep (c @ CHR ''/'' # b @ ''/'') = split_sep c @ split_sep b @ [[]]"
      using split_sep_append [of c "b @ ''/''"] by (simp add: split_trailing)
    then have "resolve c [b] = canon (walk (walk [] (split_sep c)) (split_sep b))"
      using 3 assms
      by (simp add: resolve_def isAbsolute_def normalizeString_walk canon_def walk_append
            walk_empty_segment)
    moreover have "list_all clean_seg (walk (walk [] (split_sep c)) (split_sep b))"
      by (rule walk_clean) (auto simp: walk_split_clean dest: split_sep_elems)
    ultimately show ?thesis by metis
  qed
qed

lemma root_canonical:
  assumes "isAbsolute (cwd e)"
  shows "list_all clean_seg (root_location e) \<and> allowedBaseAbs e = canon (root_location e)"
proof -
  obtain segs where s: "list_all clean_seg segs" "allowedBaseAbs e = canon segs"
    using resolve_one [OF assms] unfolding allowedBaseAbs_def by blast
  then have "root_location e = segs"
    by (simp add: root_location_def path_segments_canon)
  with s show ?thesis by simp
qed

lemma target_clean:
  assumes "isAbsolute (cwd e)"
  shows "list_all clean_seg (target_location e raw)"
  unfolding target_location_def
  using root_canonical [OF assms] walk_split_clean
  by (auto intro!: walk_clean dest: split_sep_elems)

lemma safePath_char:
  assumes "isAbsolute (cwd e)"
  shows "safePath e raw =
          (if (root_location e \<noteq> [] \<and> strict_prefix (root_location e) (target_location e raw))
              \<or> target_location e raw = root_location e
           then Inr (candidate e raw)
           else Inl (PathNotAllowed (candidate e raw) (allowedBaseAbs e)))"
proof -
  let ?t = "requested raw"
  note rc = root_canonical [OF assms]
  note tc = target_clean [OF assms, of raw]
  show ?thesis
  proof (cases "?t = [] \<or> ?t = ''.''")
    case True
    then have "target_location e raw = root_location e"
      by (auto simp: target_location_def isAbsolute_def walk_def walk_step_def)
    then show ?thesis
      using True rc by (simp add: safePath_def requested_def [symmetric] candidate_def)
  next
    case False
    have "(if isAbsolute ?t then resolve (cwd e) [?t] else resolve (cwd e) [allowedBaseAbs e, ?t])
           = candidate e raw"
    proof (cases "isAbsolute ?t")
      case True
      then show ?thesis by (simp add: resolve_absolute candidate_def target_location_def)
    next
      case f: False
      have "resolve (cwd e) [canon (root_location e), ?t]
              = canon (walk (walk [] (split_sep (canon (root_location e)))) (split_sep ?t))"
        using False f by (intro resolve_relative) (auto simp: isAbsolute_canon)
      then show ?thesis
        using f rc by (simp add: candidate_def target_location_def walk_split_canon)
    qed
    then show ?thesis
      using False rc tc
      by (simp add: safePath_def requested_def [symmetric] Let_def candidate_def
                    normalize_canon startsWith_canon canon_inject)
  qed
qed

lemma candidate_eq_root:
  assumes "isAbsolute (cwd e)"
  shows "(candidate e raw = allowedBaseAbs e) = (target_location e raw = root_location e)"
proof -
  have "(canon (target_location e raw) = canon (root_location e))
          = (root_location e = target_location e raw)"
    using root_canonical [OF assms] target_clean [OF assms] by (intro canon_inject) simp_all
  then show ?thesis
    using root_canonical [OF assms] unfolding candidate_def by metis
qed

lemma candidate_startsWith_root:
  assumes "isAbsolute (cwd e)"
  shows "startsWith (candidate e raw) (allowedBaseAbs e @ sep)
            = (root_location e \<noteq> [] \<and> strict_prefix (root_location e) (target_location e raw))"
proof -
  have "startsWith (canon (target_location e raw)) (canon (root_location e) @ sep)
            = (root_location e \<noteq> [] \<and> strict_prefix (root_location e) (target_location e raw))"
    using root_canonical [OF assms] target_clean [OF assms] by (intro startsWith_canon) simp_all
  then show ?thesis
    using root_canonical [OF assms] unfolding candidate_def by metis
qed

lemma safePath_result:
  assumes "isAbsolute (cwd e)" and "safePath e raw = Inr p"
  shows "p = candidate e raw
       \<and> ((root_location e \<noteq> [] \<and> strict_prefix (root_location e) (target_location e raw))
           \<or> target_location e raw = root_location e)"
  using assms(2) by (simp only: safePath_char [OF assms(1)] split: if_splits) simp_all

lemma safePath_canonical:
  assumes "isAbsolute (cwd e)" and "safePath e raw = Inr p"
  shows "\<exists>segs. list_all clean_seg segs \<and> p = canon segs"
  using safePath_result [OF assms] target_clean [OF assms(1), of raw]
  by (auto simp: candidate_def)

lemma safePath_empty: "safePath e (Some []) = Inr (allowedBaseAbs e)"
  by (simp add: safePath_def trim_def)

lemma rejected_tools_untouched:
  assumes "safePath e (path args) = Inl err"
  shows "list_all (\<lambda>tool. tool e args w = (Inl err, w))
           [fs_read, read_file, fs_write, write_file, fs_append, fs_delete]"
  using assms
  by (simp add: fs_read_def read_file_def fs_write_def write_file_def fs_append_def fs_delete_def)

lemma roundtrip:
  assumes "isAbsolute (cwd e)" and "safePath e raw = Inr p"
      and "trim (relative_to_root e p) = relative_to_root e p"
  shows "safePath e (Some (relative_to_root e p)) = Inr p"
proof -
  let ?root = "root_location e" and ?tgt = "target_location e raw"
  note rc = root_canonical [OF assms(1)]
  note tc = target_clean [OF assms(1), of raw]
  note sr = safePath_result [OF assms(1,2)]
  show ?thesis
  proof (cases "?tgt = ?root")
    case True
    then have "p = allowedBaseAbs e" using sr rc by (simp add: candidate_def)
    then show ?thesis by (simp add: relative_to_root_def safePath_empty)
  next
    case False
    then obtain c where c: "?root \<noteq> []" "c \<noteq> []" "?tgt = ?root @ c"
      using sr by (auto simp: strict_prefix_def prefix_def)
    have cc: "list_all clean_seg c" using tc c(3) by simp
    have p: "p = allowedBaseAbs e @ CHR ''/'' # join_sep c"
      using sr rc c by (simp add: candidate_def canon_def join_sep_append)
    have nr: "allowedBaseAbs e \<noteq> ''/''"
      using rc c(1) by (simp add: canon_def join_sep_eq_Nil)
    have rel: "relative_to_root e p = join_sep c"
      using nr by (simp add: relative_to_root_def p)
    have req: "requested (Some (join_sep c)) = join_sep c"
      using assms(3) by (simp add: requested_def rel)
    have na: "\<not> isAbsolute (join_sep c)"
      using hd_join_sep_clean [OF c(2) cc] by (simp add: isAbsolute_def)
    have t: "target_location e (Some (join_sep c)) = ?root @ c"
      using na cc c(2)
      by (simp add: target_location_def req split_join clean_no_slash walk_clean_segs)
    then have "safePath e (Some (join_sep c)) = Inr (candidate e (Some (join_sep c)))"
      using c by (simp only: safePath_char [OF assms(1)]) (simp add: strict_prefix_def)
    moreover have "candidate e (Some (join_sep c)) = p"
      using sr t c(3) by (simp add: candidate_def)
    ultimately show ?thesis by (simp add: rel)
  qed
qed

section \<open>The path helper on any platform: what it computes\<close>

lemma split_by_nonempty: "split_by f s \<noteq> []"
  by (induction s) (auto split: list.splits)

lemma split_by_append: "f c \<Longrightarrow> split_by f (x @ c # y) = split_by f x @ split_by f y"
  by (induction x) (auto split: list.splits simp: split_by_nonempty)

lemma win32_pieces_append:
  "win32_pieces (x @ backslash # y) = win32_pieces x @ win32_pieces y"
  by (simp add: win32_pieces_def split_by_append isPathSeparator_def)

lemma colon_not_separator: "\<not> isPathSeparator CHR '':''"
  by (simp add: isPathSeparator_def backslash_def)

lemma win32_location_extends:
  assumes "win32_volume r \<noteq> NoVolume"
  shows "win32_volume (r @ backslash # rest) = win32_volume r
       \<and> prefix (win32_segments r) (win32_segments (r @ backslash # rest))"
proof -
  obtain a b r' where r: "r = a # b # r'"
    using assms
    by (cases r; cases "tl r") (auto simp: win32_volume_def win32_location_def)
  show ?thesis
  proof (cases "isPathSeparator a \<and> isPathSeparator b")
    case True
    then obtain server share segs where p: "win32_pieces r = server # share # segs"
      using assms r
      by (auto simp: win32_volume_def win32_location_def split: list.splits)
    have "win32_pieces (r @ backslash # rest) = server # share # (segs @ win32_pieces rest)"
      by (simp add: win32_pieces_append p)
    then show ?thesis
      using True p unfolding r win32_volume_def win32_segments_def win32_location_def
      by simp
  next
    case False
    then have d: "isWindowsDeviceRoot a \<and> b = CHR '':''"
      using assms r by (auto simp: win32_volume_def win32_location_def split: if_splits)
    show ?thesis
      using d win32_pieces_append [of r' rest]
      unfolding r win32_volume_def win32_segments_def win32_location_def
      by (simp add: colon_not_separator)
  qed
qed

lemma safePath_on_char:
  assumes "pm_normalize P root = root"
  shows "safePath_on P root raw =
           (if candidate_on P root raw = root \<or>
               startsWith (candidate_on P root raw) (root @ pm_sep P)
            then Inr (candidate_on P root raw)
            else Inl (PathNotAllowed (candidate_on P root raw) root))"
  using assms
  by (auto simp: safePath_on_def candidate_on_def requested_def Let_def)

lemma safePath_on_posix:
  "safePath e raw = safePath_on (posix_module (cwd e)) (allowedBaseAbs e) raw"
  by (simp add: safePath_def safePath_on_def posix_module_def Let_def)

lemma win32_inside:
  assumes "win32_volume r \<noteq> NoVolume"
      and "c = r \<or> startsWith c (r @ [backslash])"
  shows "win32_volume c = win32_volume r \<and> prefix (win32_segments r) (win32_segments c)"
proof (cases "c = r")
  case True
  then show ?thesis by simp
next
  case False
  then obtain rest where "c = r @ backslash # rest"
    using assms(2) by (auto simp: startsWith_prefix prefix_def)
  then show ?thesis using win32_location_extends [OF assms(1)] by simp
qed

lemma split_by_none: "\<forall>c \<in> set s. \<not> f c \<Longrightarrow> split_by f s = [s]"
  by (induction s) auto

lemma join_by_Cons: "ss \<noteq> [] \<Longrightarrow> join_by c (s # ss) = s @ c # join_by c ss"
  by (cases ss) auto

lemma split_join_by:
  "f c \<Longrightarrow> \<forall>s \<in> set ss. \<forall>x \<in> set s. \<not> f x \<Longrightarrow> ss \<noteq> [] \<Longrightarrow>
     split_by f (join_by c ss) = ss"
proof (induction ss)
  case Nil
  then show ?case by simp
next
  case (Cons s ss)
  show ?case
  proof (cases "ss = []")
    case True
    then show ?thesis using Cons.prems by (simp add: split_by_none)
  next
    case False
    then show ?thesis
      using Cons by (simp add: join_by_Cons split_by_append split_by_none)
  qed
qed

lemma win32_clean_no_separator: "win32_clean s \<Longrightarrow> x \<in> set s \<Longrightarrow> \<not> isPathSeparator x"
  by (auto simp: win32_clean_def clean_seg_def isPathSeparator_def)

lemma backslash_separator: "isPathSeparator backslash"
  by (simp add: isPathSeparator_def)

lemma split_join_clean:
  assumes "list_all win32_clean segs" and "segs \<noteq> []"
  shows "split_by isPathSeparator (join_by backslash segs) = segs"
proof -
  have "\<forall>s \<in> set segs. \<forall>x \<in> set s. \<not> isPathSeparator x"
    using assms(1) by (auto simp: list_all_iff dest: win32_clean_no_separator)
  then show ?thesis
    using assms(2) by (intro split_join_by backslash_separator)
qed

lemma join_by_Nil: "join_by c segs = [] \<Longrightarrow> segs = [] \<or> segs = [[]]"
  by (induction segs rule: join_by.induct [of _ c]) auto

lemma win32_normalizeString_clean:
  assumes "list_all win32_clean segs"
  shows "win32_normalizeString False (join_by backslash segs) = join_by backslash segs"
proof (cases "segs = []")
  case True
  then show ?thesis by (simp add: win32_normalizeString_def norm_step_def)
next
  case False
  have c: "list_all clean_seg segs"
    using assms by (simp add: list_all_iff win32_clean_def)
  have "split_by isPathSeparator (join_by backslash segs) = segs"
    by (rule split_join_clean [OF assms False])
  moreover have "foldl (norm_step False) [] segs = rev segs"
    using foldl_norm_step_walk [of "[]" segs] walk_clean_segs [OF c, of "[]"] by simp
  ultimately show ?thesis by (simp add: win32_normalizeString_def)
qed

lemma last_join_by:
  "segs \<noteq> [] \<Longrightarrow> last segs \<noteq> [] \<Longrightarrow> last (join_by c segs) = last (last segs)"
proof (induction segs rule: join_by.induct [of _ c])
  case (3 s x y zs)
  have "join_by s (y # zs) \<noteq> []"
    using 3(3) join_by_Nil [of s "y # zs"] by auto
  then show ?case using 3 by simp
qed simp_all

lemma join_by_eq_Nil: "list_all win32_clean segs \<Longrightarrow> (join_by c segs = []) = (segs = [])"
  by (cases segs; cases "tl segs") (auto simp: win32_clean_def clean_seg_def)

lemma letter_not_separator: "isWindowsDeviceRoot d \<Longrightarrow> \<not> isPathSeparator d"
  by (auto simp: isWindowsDeviceRoot_def isPathSeparator_def backslash_def)

lemma drive_path_normalized:
  assumes "isWindowsDeviceRoot d" and "list_all win32_clean segs"
  shows "win32_normalize (drive_path d segs) = drive_path d segs"
proof -
  let ?t = "join_by backslash segs"
  have r: "win32_root (drive_path d segs) = ([d, CHR '':''], 3, True)"
    using assms(1)
    by (simp add: win32_root_def drive_path_def letter_not_separator backslash_separator)
  have t: "win32_normalizeString False ?t = ?t"
    by (rule win32_normalizeString_clean [OF assms(2)])
  have l: "\<not> isPathSeparator (last (drive_path d segs))" if "?t \<noteq> []"
  proof -
    have n: "segs \<noteq> []" using that by auto
    then have "last segs \<in> set segs" by simp
    then have c: "win32_clean (last segs)" using assms(2) by (simp add: list_all_iff)
    then have "last segs \<noteq> []" by (simp add: win32_clean_def clean_seg_def)
    then have "last ?t = last (last segs)" "last (last segs) \<in> set (last segs)"
      using n by (simp_all add: last_join_by)
    then show ?thesis
      using that c by (simp add: drive_path_def win32_clean_no_separator)
  qed
  show ?thesis
    using r t l assms(1)
    by (auto simp: win32_normalize_def drive_path_def letter_not_separator Let_def)
qed

lemma drive_path_volume:
  "isWindowsDeviceRoot d \<Longrightarrow> win32_volume (drive_path d segs) = Drive d"
  by (simp add: win32_volume_def win32_location_def drive_path_def letter_not_separator)

lemma win32_pieces_clean:
  "list_all win32_clean segs \<Longrightarrow> win32_pieces (join_by backslash segs) = segs"
proof (cases "segs = []")
  case True
  then show ?thesis by (simp add: win32_pieces_def)
next
  case False
  assume a: "list_all win32_clean segs"
  have "split_by isPathSeparator (join_by backslash segs) = segs"
    by (rule split_join_clean [OF a False])
  moreover have "filter (\<lambda>x. x \<noteq> []) segs = segs"
    using a by (auto simp: list_all_iff win32_clean_def clean_seg_def intro: filter_True)
  ultimately show ?thesis by (simp add: win32_pieces_def)
qed

lemma drive_path_segments:
  assumes "isWindowsDeviceRoot d" and "list_all win32_clean segs"
  shows "win32_segments (drive_path d segs) = segs"
proof -
  have "win32_pieces (backslash # join_by backslash segs) = segs"
    using win32_pieces_append [of "[]" "join_by backslash segs"] win32_pieces_clean [OF assms(2)]
    by (simp add: win32_pieces_def)
  then show ?thesis
    using assms(1)
    by (simp add: win32_segments_def win32_location_def drive_path_def letter_not_separator)
qed

lemma safePath_on_accepts:
  assumes "pm_normalize P root = root"
  shows "accepted (safePath_on P root raw) =
           (candidate_on P root raw = root \<or>
            startsWith (candidate_on P root raw) (root @ pm_sep P))"
  by (simp add: safePath_on_char [OF assms] accepted_def)

lemma safePath_on_other_volume:
  assumes "pm_normalize P root = root" and "pm_sep P = [backslash]"
      and "win32_volume root \<noteq> NoVolume"
      and "win32_volume (candidate_on P root raw) \<noteq> win32_volume root \<or>
           \<not> prefix (win32_segments root) (win32_segments (candidate_on P root raw))"
  shows "\<not> accepted (safePath_on P root raw)"
proof
  assume "accepted (safePath_on P root raw)"
  then have "candidate_on P root raw = root \<or>
             startsWith (candidate_on P root raw) (root @ [backslash])"
    using safePath_on_accepts [OF assms(1), of raw] assms(2) by simp
  then show False using win32_inside [OF assms(3)] assms(4) by blast
qed

lemma candidate_on_posix:
  assumes "isAbsolute (cwd e)"
  shows "candidate_on (posix_module (cwd e)) (allowedBaseAbs e) raw = candidate e raw"
proof -
  let ?t = "requested raw"
  note rc = root_canonical [OF assms]
  note tc = target_clean [OF assms, of raw]
  show ?thesis
  proof (cases "?t = [] \<or> ?t = ''.''")
    case True
    then have "target_location e raw = root_location e"
      by (auto simp: target_location_def isAbsolute_def walk_def walk_step_def)
    then show ?thesis
      using True rc by (simp add: candidate_on_def candidate_def)
  next
    case False
    have "(if isAbsolute ?t then resolve (cwd e) [?t] else resolve (cwd e) [allowedBaseAbs e, ?t])
           = candidate e raw"
    proof (cases "isAbsolute ?t")
      case True
      then show ?thesis by (simp add: resolve_absolute candidate_def target_location_def)
    next
      case f: False
      have "resolve (cwd e) [canon (root_location e), ?t]
              = canon (walk (walk [] (split_sep (canon (root_location e)))) (split_sep ?t))"
        using False f by (intro resolve_relative) (auto simp: isAbsolute_canon)
      then show ?thesis
        using f rc by (simp add: candidate_def target_location_def walk_split_canon)
    qed
    then show ?thesis
      using False tc
      by (simp add: candidate_on_def posix_module_def)
         (auto simp: candidate_def normalize_canon split: if_splits)
  qed
qed

section \<open>Directories on the way to a path\<close>

lemma fold_mkdir:
  "fold (\<lambda>a m. m(a \<mapsto> Dir)) as m x = (if x \<in> set as then Some Dir else m x)"
  by (induction as arbitrary: m) auto

lemma dirname_canon:
  assumes "list_all clean_seg segs"
  shows "dirname (canon segs) = canon (butlast segs)"
proof (cases segs rule: rev_cases)
  case Nil
  then show ?thesis by (simp add: dirname_def canon_def)
next
  case (snoc xs s)
  have s: "s \<noteq> []" "CHR ''/'' \<notin> set s" and xs: "list_all clean_seg xs"
    using assms snoc by (auto simp: clean_seg_def)
  have d1: "dropWhile (\<lambda>c. c = CHR ''/'') (rev s @ r) = rev s @ r" for r
    using s by (cases s rule: rev_cases) auto
  have d2: "dropWhile (\<lambda>c. c \<noteq> CHR ''/'') (rev s @ r) = dropWhile (\<lambda>c. c \<noteq> CHR ''/'') r" for r
    using s by (simp add: dropWhile_append)
  show ?thesis
  proof (cases "xs = []")
    case True
    then show ?thesis
      using snoc s d1 [of "[]"] d2 [of "[]"] by (simp add: dirname_def canon_def)
  next
    case False
    then have j: "join_sep (xs @ [s]) = join_sep xs @ CHR ''/'' # s"
      using join_sep_append [of xs "[s]"] by simp
    have ne: "join_sep xs \<noteq> []" using False xs by (simp add: join_sep_eq_Nil)
    show ?thesis
      using snoc d1 [of "CHR ''/'' # rev (join_sep xs)"] d2 [of "CHR ''/'' # rev (join_sep xs)"] ne
      by (simp add: dirname_def canon_def j Let_def)
  qed
qed

lemma ancestors_canon:
  "list_all clean_seg segs \<Longrightarrow> ancestors (canon segs) = map canon (prefixes segs)"
  by (simp add: ancestors_def path_segments_canon)

lemma canon_in_ancestors:
  assumes "list_all clean_seg a" and "list_all clean_seg b"
  shows "(canon a \<in> set (ancestors (canon b))) = prefix a b"
proof -
  have "(canon a \<in> canon ` set (prefixes b)) = prefix a b"
  proof
    assume "canon a \<in> canon ` set (prefixes b)"
    then obtain x where x: "prefix x b" "canon a = canon x" by (auto simp: in_set_prefixes)
    then have "a = x"
      using canon_inject [OF clean_prefix [OF assms(2) x(1)] assms(1)] by simp
    with x show "prefix a b" by simp
  qed (auto simp: in_set_prefixes)
  then show ?thesis by (simp add: ancestors_canon assms)
qed

lemma self_in_parent_ancestors:
  assumes "list_all clean_seg segs"
  shows "(canon segs \<in> set (ancestors (dirname (canon segs)))) = (segs = [])"
proof -
  have "prefix segs (butlast segs) = (segs = [])"
    by (cases segs rule: rev_cases) (auto simp: prefix_def)
  then show ?thesis
    using canon_in_ancestors [OF assms clean_butlast [OF assms]]
    by (simp add: dirname_canon assms)
qed

lemma parent_in_parent_ancestors:
  assumes "list_all clean_seg segs"
  shows "dirname (canon segs) \<in> set (ancestors (dirname (canon segs)))"
  using canon_in_ancestors [OF clean_butlast [OF assms] clean_butlast [OF assms]]
  by (simp add: dirname_canon assms)

lemma after_mkdir_parent:
  assumes "list_all clean_seg segs" and "p = canon segs"
  shows "fold (\<lambda>a m. m(a \<mapsto> Dir)) (ancestors (dirname p)) m (dirname p) = Some Dir"
    and "fold (\<lambda>a m. m(a \<mapsto> Dir)) (ancestors (dirname p)) m p = (if p = ''/'' then Some Dir else m p)"
  using parent_in_parent_ancestors [OF assms(1)] self_in_parent_ancestors [OF assms(1)]
        canon_root [OF assms(1)] assms(2)
  by (simp_all add: fold_mkdir)

section \<open>Writing, appending and reading one path\<close>

lemma fs_write_writable:
  assumes "isAbsolute (cwd e)" and "safePath e (path args) = Inr p" and "writable w p"
  shows "fst (fs_write e args w)
           = Inr (''Written '' @ show_nat (content_length args) @ '' chars to '' @ p)
       \<and> files (snd (fs_write e args w)) p = Some (File (utf8_encode w (content_or_empty args)))
       \<and> utf8_decode (snd (fs_write e args w)) = utf8_decode w
       \<and> name_accepted (snd (fs_write e args w)) = name_accepted w"
proof -
  obtain segs where segs: "list_all clean_seg segs" "p = canon segs"
    using safePath_canonical [OF assms(1,2)] by blast
  show ?thesis
    using assms(2,3) after_mkdir_parent [OF segs]
    by (simp add: fs_write_def Let_def fs_mkdir_recursive_def writable_def console_log_def
          fs_writeFile_def called_def split: option.splits node.splits)
qed

lemma fs_write_not_writable:
  assumes "isAbsolute (cwd e)" and "safePath e (path args) = Inr p" and "\<not> writable w p"
  shows "\<not> accepted (fst (fs_write e args w))"
proof -
  obtain segs where segs: "list_all clean_seg segs" "p = canon segs"
    using safePath_canonical [OF assms(1,2)] by blast
  show ?thesis
    using assms(2,3) after_mkdir_parent [OF segs]
    by (auto simp: fs_write_def Let_def fs_mkdir_recursive_def writable_def console_log_def
          fs_writeFile_def called_def accepted_def split: option.splits node.splits)
qed

lemma fs_append_world:
  assumes "isAbsolute (cwd e)" and "safePath e (path args) = Inr p" and "writable w p"
  shows "files (snd (fs_append e args w))
           = (fold (\<lambda>a m. m(a \<mapsto> Dir)) (ancestors (dirname p)) (files w))
               (p \<mapsto> File (old_content w p @ utf8_encode w (content_or_empty args)))
       \<and> utf8_encode (snd (fs_append e args w)) = utf8_encode w
       \<and> utf8_decode (snd (fs_append e args w)) = utf8_decode w
       \<and> name_accepted (snd (fs_append e args w)) = name_accepted w"
proof -
  obtain segs where segs: "list_all clean_seg segs" "p = canon segs"
    using safePath_canonical [OF assms(1,2)] by blast
  show ?thesis
    using assms(2,3) after_mkdir_parent [OF segs]
    by (simp add: fs_append_def Let_def fs_mkdir_recursive_def writable_def console_log_def
          fs_appendFile_def called_def old_content_def split: option.splits node.splits)
qed

lemma fs_append_writable:
  assumes "isAbsolute (cwd e)" and "safePath e (path args) = Inr p" and "writable w p"
  shows "fst (fs_append e args w)
           = Inr (''Appended '' @ show_nat (content_length args) @ '' chars to '' @ p)
       \<and> files (snd (fs_append e args w)) p
            = Some (File (old_content w p @ utf8_encode w (content_or_empty args)))"
proof -
  obtain segs where segs: "list_all clean_seg segs" "p = canon segs"
    using safePath_canonical [OF assms(1,2)] by blast
  show ?thesis
    using assms(2,3) after_mkdir_parent [OF segs]
    by (simp add: fs_append_def Let_def fs_mkdir_recursive_def writable_def console_log_def
          fs_appendFile_def called_def old_content_def split: option.splits node.splits)
qed

lemma fs_append_not_writable:
  assumes "isAbsolute (cwd e)" and "safePath e (path args) = Inr p" and "\<not> writable w p"
  shows "\<not> accepted (fst (fs_append e args w))"
proof -
  obtain segs where segs: "list_all clean_seg segs" "p = canon segs"
    using safePath_canonical [OF assms(1,2)] by blast
  show ?thesis
    using assms(2,3) after_mkdir_parent [OF segs]
    by (auto simp: fs_append_def Let_def fs_mkdir_recursive_def writable_def console_log_def
          fs_appendFile_def called_def accepted_def split: option.splits node.splits)
qed

lemma fs_append_keeps_writable:
  assumes "isAbsolute (cwd e)" and "safePath e (path args) = Inr p" and "writable w p"
  shows "writable (snd (fs_append e args w)) p"
proof -
  obtain segs where segs: "list_all clean_seg segs" "p = canon segs"
    using safePath_canonical [OF assms(1,2)] by blast
  have "segs \<noteq> []" using assms(3) segs canon_root [OF segs(1)] by (simp add: writable_def)
  then have "p \<notin> set (ancestors (dirname p))"
    using self_in_parent_ancestors [OF segs(1)] segs(2) by simp
  then show ?thesis
    using assms(3)
    by (auto simp: writable_def fs_append_world [OF assms] list_ex_iff fold_mkdir is_file_def)
qed

lemma fs_read_file:
  assumes "safePath e (path args) = Inr p" and "files w p = Some (File b)"
      and "maxBytes args = None" and "name_accepted w p"
  shows "fst (fs_read e args w) = Inr (utf8_decode w (take default_limit b))"
  using assms
  by (simp add: fs_read_def Let_def fs_stat_def fs_readFile_def console_log_def called_def min_def)

section \<open>The example data evaluated\<close>

lemma base_env_abs: "isAbsolute (cwd base_env)"
  by (simp add: base_env_def isAbsolute_def)

lemma notes_path: "safePath base_env (Some ''notes.txt'') = Inr ''/base/notes.txt''"
  by code_simp

lemma notes_dir: "dirname ''/base/notes.txt'' = ''/base''"
  by code_simp

lemma base_ancestors: "ancestors ''/base'' = [''/'', ''/base'']"
  by code_simp

lemma root_path: "safePath base_env (Some []) = Inr ''/base''"
  by code_simp

lemma base_dir: "dirname ''/base'' = ''/''"
  by code_simp

lemma root_ancestors: "ancestors ''/'' = [''/'']"
  by code_simp

lemma notes_names:
  "posix_name_accepted ''/base''" "posix_name_accepted ''/base/notes.txt''"
  by code_simp+

lemma notes_writable: "writable base_world ''/base/notes.txt''"
  by (simp add: writable_def notes_dir base_ancestors base_world_def is_file_def notes_names)

lemma root_not_writable: "\<not> writable base_world ''/base''"
  by (simp add: writable_def base_world_def)

lemma notes_old_content: "old_content base_world ''/base/notes.txt'' = ''x''"
  by (simp add: old_content_def base_world_def)

lemma base_world_codec:
  "utf8_encode base_world = example_encode" "utf8_decode base_world = example_decode"
  by (simp_all add: base_world_def)

lemma example_texts:
  "example_encode [] = []"
  "example_encode ''hello'' = ''hello''"
  "example_encode ''a'' = ''a''"
  "example_encode ''b'' = ''b''"
  "example_decode ''hello'' = ''hello''"
  "example_decode ''xab'' = ''xab''"
  "example_encode [CHR 0xE9] = [CHR 0xC3, CHR 0xA9]"
  "example_decode [CHR 0xC3, CHR 0xA9] = [CHR 0xE9]"
  by code_simp+

lemma show_nat_0: "show_nat 0 = ''0''"
  by code_simp

lemma one_session_eq:
  "one_session = \<lparr>sessions = [''uuid-1'' \<mapsto> \<lparr>transport = 0, mcp = 0\<rparr>], transports = [Open]\<rparr>"
  by (simp add: one_session_def mcp_route_def initialize_post_def no_sessions_def
        lookup_entry_def createSession_def Let_def)

lemma close_uuid1_eq:
  "mcp_route close_uuid1 u one_session =
     (Status 200 [], \<lparr>sessions = Map.empty, transports = [Closed]\<rparr>)"
  by (simp add: mcp_route_def close_uuid1_def lookup_entry_def one_session_eq)

section \<open>Sessions: what the registry keeps absent\<close>

lemma rejected_without_session:
  assumes "req_method req = POST" and "\<not> isInitializeRequest req" and "lookup_entry req s = None"
  shows "mcp_route req uuid s =
           (JsonRpcError 400 (- 32000) no_session_message (body_id req), s)"
  using assms by (simp add: mcp_route_def)

lemma absent_stays_absent:
  "sessions s t = None \<Longrightarrow> uuid \<noteq> t \<Longrightarrow> sessions (snd (mcp_route req uuid s)) t = None"
  by (auto simp: mcp_route_def createSession_def Let_def lookup_entry_def
      split: http_method.splits option.splits)

lemma run_absent:
  "sessions s t = None \<Longrightarrow> list_all (never_generates t) evs \<Longrightarrow>
     sessions (run_events evs s) t = None"
  unfolding run_events_def
  by (induction evs arbitrary: s)
     (auto simp: step_event_def never_generates_def absent_stays_absent admin_clear_sessions_def
        split: event.splits)

lemma absent_after_delete:
  assumes "req_method del = DELETE" and "headerSid del = Some t" and "t \<noteq> []"
  shows "sessions (snd (mcp_route del u s)) t = None"
  using assms by (auto simp: mcp_route_def lookup_entry_def split: option.splits)

section \<open>The guard of fs_delete\<close>

lemma delete_guard:
  assumes "safePath e (path args) = Inr p"
  shows "(fst (fs_delete e args w) = Inl CannotDeleteRoot) = (p = allowedBaseAbs e)"
  using assms
  by (auto simp: fs_delete_def Let_def fs_stat_def fs_rm_recursive_force_def fs_unlink_def
        absent_error_def console_log_def called_def
      split: option.splits node.splits if_splits)

section \<open>The claims\<close>

text \<open>
  C1. On every platform, that is for every separator and every \<^verbatim>\<open>isAbsolute\<close>,
  \<^verbatim>\<open>resolve\<close> and \<^verbatim>\<open>normalize\<close>, with a normalized Root: \<^verbatim>\<open>safePath\<close> accepts
  exactly when the normalized candidate equals Root or starts with Root followed by the
  platform's separator; it then returns the candidate, and otherwise throws an error
  carrying the candidate and Root. Where the separator is the backslash and Root has a
  volume, a candidate on another volume (another drive, another share), or whose names
  do not begin with Root's names, is rejected.

  On Windows, with a Root on a drive (a letter, a colon, and names joined by
  backslashes): Root is normalized, so acceptance is as above, and a candidate on
  another drive, or whose names do not begin with Root's names, is rejected.

  On a POSIX platform with an absolute working directory (as the operating system
  reports it) Root is normalized and the candidate is the location the request denotes,
  written as a path; a request whose location lies outside Root (Root's segments are
  not a prefix of the location's: a sibling, an ancestor, or a name that merely begins
  with Root's last name) is rejected. When \<^verbatim>\<open>safePath\<close> rejects, each of the tools
  \<^verbatim>\<open>fs_read\<close>, \<^verbatim>\<open>read_file\<close>, \<^verbatim>\<open>fs_write\<close>, \<^verbatim>\<open>write_file\<close>,
  \<^verbatim>\<open>fs_append\<close>, \<^verbatim>\<open>fs_delete\<close> throws the error and leaves the world as it
  was: no filesystem call, no console line. (\<^verbatim>\<open>safePath\<close> itself takes no filesystem
  at all.)
\<close>

theorem safePath_containment:
  "(isAbsolute (cwd e) \<longrightarrow>
      (\<not> prefix (root_location e) (target_location e raw) \<longrightarrow> \<not> accepted (safePath e raw))
    \<and> (accepted (safePath e raw) =
         (candidate e raw = allowedBaseAbs e \<or>
          startsWith (candidate e raw) (allowedBaseAbs e @ sep)))
    \<and> (accepted (safePath e raw) \<longrightarrow> safePath e raw = Inr (candidate e raw))
    \<and> (\<not> accepted (safePath e raw) \<longrightarrow>
         safePath e raw = Inl (PathNotAllowed (candidate e raw) (allowedBaseAbs e)) \<and>
         list_all (\<lambda>tool. tool e \<lparr>path = raw, maxBytes = m, content = c\<rparr> w
                     = (Inl (PathNotAllowed (candidate e raw) (allowedBaseAbs e)), w))
           [fs_read, read_file, fs_write, write_file, fs_append, fs_delete])
    \<and> pm_normalize (posix_module (cwd e)) (allowedBaseAbs e) = allowedBaseAbs e
    \<and> candidate_on (posix_module (cwd e)) (allowedBaseAbs e) raw = candidate e raw)
   \<and> safePath e raw = safePath_on (posix_module (cwd e)) (allowedBaseAbs e) raw
   \<and> (pm_normalize P root = root \<longrightarrow>
      (accepted (safePath_on P root raw) =
         (candidate_on P root raw = root \<or>
          startsWith (candidate_on P root raw) (root @ pm_sep P)))
    \<and> (accepted (safePath_on P root raw) \<longrightarrow>
         safePath_on P root raw = Inr (candidate_on P root raw))
    \<and> (\<not> accepted (safePath_on P root raw) \<longrightarrow>
         safePath_on P root raw = Inl (PathNotAllowed (candidate_on P root raw) root))
    \<and> (pm_sep P = [backslash] \<and> win32_volume root \<noteq> NoVolume \<and>
         (win32_volume (candidate_on P root raw) \<noteq> win32_volume root \<or>
          \<not> prefix (win32_segments root) (win32_segments (candidate_on P root raw)))
         \<longrightarrow> \<not> accepted (safePath_on P root raw)))
   \<and> (isWindowsDeviceRoot d \<and> list_all win32_clean segs \<longrightarrow>
      pm_normalize (win32_module W) (drive_path d segs) = drive_path d segs
    \<and> (accepted (safePath_on (win32_module W) (drive_path d segs) raw) =
         (candidate_on (win32_module W) (drive_path d segs) raw = drive_path d segs \<or>
          startsWith (candidate_on (win32_module W) (drive_path d segs) raw)
            (drive_path d segs @ [backslash])))
    \<and> (win32_volume (candidate_on (win32_module W) (drive_path d segs) raw) \<noteq> Drive d \<or>
         \<not> prefix segs (win32_segments (candidate_on (win32_module W) (drive_path d segs) raw))
         \<longrightarrow> \<not> accepted (safePath_on (win32_module W) (drive_path d segs) raw)))"
proof -
  have posix: "(\<not> prefix (root_location e) (target_location e raw) \<longrightarrow>
                  \<not> accepted (safePath e raw))
       \<and> (accepted (safePath e raw) =
            (candidate e raw = allowedBaseAbs e \<or>
             startsWith (candidate e raw) (allowedBaseAbs e @ sep)))
       \<and> (accepted (safePath e raw) \<longrightarrow> safePath e raw = Inr (candidate e raw))
       \<and> (\<not> accepted (safePath e raw) \<longrightarrow>
            safePath e raw = Inl (PathNotAllowed (candidate e raw) (allowedBaseAbs e)) \<and>
            list_all (\<lambda>tool. tool e \<lparr>path = raw, maxBytes = m, content = c\<rparr> w
                        = (Inl (PathNotAllowed (candidate e raw) (allowedBaseAbs e)), w))
              [fs_read, read_file, fs_write, write_file, fs_append, fs_delete])"
    if absolute: "isAbsolute (cwd e)"
  proof (cases "(root_location e \<noteq> [] \<and>
                   strict_prefix (root_location e) (target_location e raw))
                \<or> target_location e raw = root_location e")
    case True
    then have s: "safePath e raw = Inr (candidate e raw)"
      by (simp only: safePath_char [OF absolute] if_True)
    have "prefix (root_location e) (target_location e raw)"
      using True by (auto simp: strict_prefix_def)
    then show ?thesis
      using True
      by (simp only: s candidate_eq_root [OF absolute] candidate_startsWith_root [OF absolute])
         (auto simp: accepted_def)
  next
    case False
    then have s: "safePath e raw = Inl (PathNotAllowed (candidate e raw) (allowedBaseAbs e))"
      by (simp only: safePath_char [OF absolute] if_False)
    have t: "list_all (\<lambda>tool. tool e \<lparr>path = raw, maxBytes = m, content = c\<rparr> w
                          = (Inl (PathNotAllowed (candidate e raw) (allowedBaseAbs e)), w))
                [fs_read, read_file, fs_write, write_file, fs_append, fs_delete]"
      using rejected_tools_untouched [of e "\<lparr>path = raw, maxBytes = m, content = c\<rparr>"] s
      by simp
    have a: "\<not> accepted (safePath e raw)" by (simp add: s accepted_def)
    have "\<not> (candidate e raw = allowedBaseAbs e \<or>
              startsWith (candidate e raw) (allowedBaseAbs e @ sep))"
      using False
      by (simp only: candidate_eq_root [OF absolute] candidate_startsWith_root [OF absolute])
         auto
    then show ?thesis using a s t by blast
  qed
  have norm: "pm_normalize (posix_module (cwd e)) (allowedBaseAbs e) = allowedBaseAbs e"
    if "isAbsolute (cwd e)"
    using root_canonical [OF that] by (simp add: posix_module_def normalize_canon)
  have yes: "safePath_on P root raw = Inr (candidate_on P root raw)"
    if "pm_normalize P root = root" "accepted (safePath_on P root raw)"
    using that(2) by (simp add: safePath_on_char [OF that(1)] accepted_def split: if_splits)
  have no: "safePath_on P root raw = Inl (PathNotAllowed (candidate_on P root raw) root)"
    if "pm_normalize P root = root" "\<not> accepted (safePath_on P root raw)"
    using that(2) by (simp add: safePath_on_char [OF that(1)] accepted_def split: if_splits)
  have first: "isAbsolute (cwd e) \<longrightarrow>
      (\<not> prefix (root_location e) (target_location e raw) \<longrightarrow> \<not> accepted (safePath e raw))
    \<and> (accepted (safePath e raw) =
         (candidate e raw = allowedBaseAbs e \<or>
          startsWith (candidate e raw) (allowedBaseAbs e @ sep)))
    \<and> (accepted (safePath e raw) \<longrightarrow> safePath e raw = Inr (candidate e raw))
    \<and> (\<not> accepted (safePath e raw) \<longrightarrow>
         safePath e raw = Inl (PathNotAllowed (candidate e raw) (allowedBaseAbs e)) \<and>
         list_all (\<lambda>tool. tool e \<lparr>path = raw, maxBytes = m, content = c\<rparr> w
                     = (Inl (PathNotAllowed (candidate e raw) (allowedBaseAbs e)), w))
           [fs_read, read_file, fs_write, write_file, fs_append, fs_delete])
    \<and> pm_normalize (posix_module (cwd e)) (allowedBaseAbs e) = allowedBaseAbs e
    \<and> candidate_on (posix_module (cwd e)) (allowedBaseAbs e) raw = candidate e raw"
    using posix norm candidate_on_posix [of e raw] by blast
  have second: "pm_normalize P root = root \<longrightarrow>
      (accepted (safePath_on P root raw) =
         (candidate_on P root raw = root \<or>
          startsWith (candidate_on P root raw) (root @ pm_sep P)))
    \<and> (accepted (safePath_on P root raw) \<longrightarrow>
         safePath_on P root raw = Inr (candidate_on P root raw))
    \<and> (\<not> accepted (safePath_on P root raw) \<longrightarrow>
         safePath_on P root raw = Inl (PathNotAllowed (candidate_on P root raw) root))
    \<and> (pm_sep P = [backslash] \<and> win32_volume root \<noteq> NoVolume \<and>
         (win32_volume (candidate_on P root raw) \<noteq> win32_volume root \<or>
          \<not> prefix (win32_segments root) (win32_segments (candidate_on P root raw)))
         \<longrightarrow> \<not> accepted (safePath_on P root raw))"
    using safePath_on_accepts [of P root raw] yes no safePath_on_other_volume [of P root raw]
    by blast
  have third: "pm_normalize (win32_module W) (drive_path d segs) = drive_path d segs
    \<and> (accepted (safePath_on (win32_module W) (drive_path d segs) raw) =
         (candidate_on (win32_module W) (drive_path d segs) raw = drive_path d segs \<or>
          startsWith (candidate_on (win32_module W) (drive_path d segs) raw)
            (drive_path d segs @ [backslash])))
    \<and> (win32_volume (candidate_on (win32_module W) (drive_path d segs) raw) \<noteq> Drive d \<or>
         \<not> prefix segs (win32_segments (candidate_on (win32_module W) (drive_path d segs) raw))
         \<longrightarrow> \<not> accepted (safePath_on (win32_module W) (drive_path d segs) raw))"
    if letter: "isWindowsDeviceRoot d" and names: "list_all win32_clean segs"
  proof -
    let ?P = "win32_module W" and ?root = "drive_path d segs"
    have n: "pm_normalize ?P ?root = ?root"
      using drive_path_normalized [OF letter names] by (simp add: win32_module_def)
    have sp: "pm_sep ?P = [backslash]" by (simp add: win32_module_def)
    have v: "win32_volume ?root = Drive d" by (rule drive_path_volume [OF letter])
    have sg: "win32_segments ?root = segs" by (rule drive_path_segments [OF letter names])
    have vn: "win32_volume ?root \<noteq> NoVolume" by (simp add: v)
    have a: "accepted (safePath_on ?P ?root raw) =
               (candidate_on ?P ?root raw = ?root \<or>
                startsWith (candidate_on ?P ?root raw) (?root @ [backslash]))"
      using safePath_on_accepts [OF n, of raw] by (simp only: sp)
    have r: "\<not> accepted (safePath_on ?P ?root raw)"
      if "win32_volume (candidate_on ?P ?root raw) \<noteq> Drive d \<or>
          \<not> prefix segs (win32_segments (candidate_on ?P ?root raw))"
      using safePath_on_other_volume [OF n sp vn, of raw] that unfolding v sg by blast
    show ?thesis using n a r by blast
  qed
  show ?thesis
    using first second third safePath_on_posix [of e raw] by (intro conjI) blast+
qed

theorem safePath_containment_witness:
  "isAbsolute (cwd base_env) \<and>
   \<not> prefix (root_location base_env) (target_location base_env (Some ''../baseEvil/x'')) \<and>
   safePath base_env (Some ''../baseEvil/x'') = Inl (PathNotAllowed ''/baseEvil/x'' ''/base'') \<and>
   fs_delete base_env \<lparr>path = Some ''../baseEvil/x'', maxBytes = None, content = None\<rparr> base_world
     = (Inl (PathNotAllowed ''/baseEvil/x'' ''/base''), base_world) \<and>
   safePath base_env (Some ''sub/../f.txt'') = Inr ''/base/f.txt'' \<and>
   win32_resolve win_env0 [win ''C:/base''] = win ''C:/base'' \<and>
   pm_normalize (win32_module win_env0) (win ''C:/base'') = win ''C:/base'' \<and>
   pm_sep (win32_module win_env0) = [backslash] \<and>
   win32_volume (win ''C:/base'') = Drive CHR ''C'' \<and>
   win32_volume (win ''D:/x'') = Drive CHR ''D'' \<and>
   safePath_on (win32_module win_env0) (win ''C:/base'') (Some (win ''D:/x''))
     = Inl (PathNotAllowed (win ''D:/x'') (win ''C:/base'')) \<and>
   isWindowsDeviceRoot CHR ''C'' \<and> list_all win32_clean [''base''] \<and>
   drive_path CHR ''C'' [''base''] = win ''C:/base'' \<and>
   \<not> prefix [''base''] (win32_segments (win ''C:/baseEvil/x'')) \<and>
   safePath_on (win32_module win_env0) (win ''C:/base'') (Some (win ''../baseEvil/x''))
     = Inl (PathNotAllowed (win ''C:/baseEvil/x'') (win ''C:/base'')) \<and>
   safePath_on (win32_module win_env0) (win ''C:/base'') (Some ''sub/../f.txt'')
     = Inr (win ''C:/base/f.txt'')"
proof -
  let ?W = "win32_module win_env0" and ?root = "win ''C:/base''"
  have c1: "candidate base_env (Some ''../baseEvil/x'') = ''/baseEvil/x''" by code_simp
  have c2: "candidate base_env (Some ''sub/../f.txt'') = ''/base/f.txt''" by code_simp
  have b: "allowedBaseAbs base_env = ''/base''" by code_simp
  have n: "\<not> prefix (root_location base_env) (target_location base_env (Some ''../baseEvil/x''))"
    by code_simp
  have a: "startsWith ''/base/f.txt'' (''/base'' @ sep)" by code_simp
  have r: "win32_resolve win_env0 [?root] = ?root" by code_simp
  have nr: "pm_normalize ?W ?root = ?root" by code_simp
  have sp: "pm_sep ?W = [backslash]" by (simp add: win32_module_def)
  have v: "win32_volume ?root = Drive CHR ''C''" by code_simp
  have vd: "win32_volume (win ''D:/x'') = Drive CHR ''D''" by code_simp
  have vn: "win32_volume ?root \<noteq> NoVolume" by (simp add: v)
  have lt: "isWindowsDeviceRoot CHR ''C''" by code_simp
  have cl: "list_all win32_clean [''base'']" by code_simp
  have dp: "drive_path CHR ''C'' [''base''] = ?root" by code_simp
  have w1: "candidate_on ?W ?root (Some (win ''D:/x'')) = win ''D:/x''" by code_simp
  have w2: "candidate_on ?W ?root (Some (win ''../baseEvil/x'')) = win ''C:/baseEvil/x''"
    by code_simp
  have w3: "candidate_on ?W ?root (Some ''sub/../f.txt'') = win ''C:/base/f.txt''" by code_simp
  have np: "\<not> prefix [''base''] (win32_segments (win ''C:/baseEvil/x''))"
    by code_simp
  have sw: "startsWith (win ''C:/base/f.txt'') (?root @ [backslash])" by code_simp
  note posix1 = safePath_containment
      [of base_env "Some ''../baseEvil/x''" None None base_world ?W ?root
          "CHR ''C''" "[''base'']" win_env0]
  note posix2 = safePath_containment
      [of base_env "Some ''sub/../f.txt''" None None base_world ?W ?root
          "CHR ''C''" "[''base'']" win_env0]
  note drive = safePath_containment
      [of base_env "Some (win ''D:/x'')" None None base_world ?W ?root
          "CHR ''C''" "[''base'']" win_env0]
  note evil = safePath_containment
      [of base_env "Some (win ''../baseEvil/x'')" None None base_world ?W ?root
          "CHR ''C''" "[''base'']" win_env0]
  have "\<not> accepted (safePath base_env (Some ''../baseEvil/x''))"
    using posix1 base_env_abs n by blast
  then have "safePath base_env (Some ''../baseEvil/x'')
               = Inl (PathNotAllowed (candidate base_env (Some ''../baseEvil/x''))
                       (allowedBaseAbs base_env)) \<and>
             list_all (\<lambda>tool. tool base_env
                          \<lparr>path = Some ''../baseEvil/x'', maxBytes = None, content = None\<rparr>
                          base_world
                        = (Inl (PathNotAllowed (candidate base_env (Some ''../baseEvil/x''))
                                 (allowedBaseAbs base_env)), base_world))
               [fs_read, read_file, fs_write, write_file, fs_append, fs_delete]"
    using posix1 base_env_abs by blast
  then have p1: "safePath base_env (Some ''../baseEvil/x'')
              = Inl (PathNotAllowed ''/baseEvil/x'' ''/base'')"
           "fs_delete base_env \<lparr>path = Some ''../baseEvil/x'', maxBytes = None, content = None\<rparr>
              base_world = (Inl (PathNotAllowed ''/baseEvil/x'' ''/base''), base_world)"
    by (simp_all add: c1 b)
  have "candidate base_env (Some ''sub/../f.txt'') = allowedBaseAbs base_env \<or>
        startsWith (candidate base_env (Some ''sub/../f.txt'')) (allowedBaseAbs base_env @ sep)"
    using a by (simp add: c2 b)
  then have "safePath base_env (Some ''sub/../f.txt'')
               = Inr (candidate base_env (Some ''sub/../f.txt''))"
    using posix2 base_env_abs by blast
  then have p2: "safePath base_env (Some ''sub/../f.txt'') = Inr ''/base/f.txt''"
    by (simp add: c2)
  have "win32_volume (candidate_on ?W ?root (Some (win ''D:/x''))) \<noteq> win32_volume ?root"
    by (simp add: w1 v vd)
  then have "\<not> accepted (safePath_on ?W ?root (Some (win ''D:/x'')))"
    using drive nr sp vn by blast
  then have "safePath_on ?W ?root (Some (win ''D:/x''))
               = Inl (PathNotAllowed (candidate_on ?W ?root (Some (win ''D:/x''))) ?root)"
    using drive nr by blast
  then have d: "safePath_on ?W ?root (Some (win ''D:/x''))
             = Inl (PathNotAllowed (win ''D:/x'') ?root)"
    by (simp only: w1)
  have "\<not> prefix [''base'']
            (win32_segments (candidate_on ?W (drive_path CHR ''C'' [''base''])
                               (Some (win ''../baseEvil/x''))))"
    unfolding dp w2 by (rule np)
  then have "\<not> accepted (safePath_on ?W (drive_path CHR ''C'' [''base''])
                            (Some (win ''../baseEvil/x'')))"
    using evil lt cl by blast
  then have "\<not> accepted (safePath_on ?W ?root (Some (win ''../baseEvil/x'')))"
    unfolding dp .
  then have "safePath_on ?W ?root (Some (win ''../baseEvil/x''))
               = Inl (PathNotAllowed (candidate_on ?W ?root (Some (win ''../baseEvil/x'')))
                       ?root)"
    using evil nr by blast
  then have ev: "safePath_on ?W ?root (Some (win ''../baseEvil/x''))
              = Inl (PathNotAllowed (win ''C:/baseEvil/x'') ?root)"
    by (simp only: w2)
  have "candidate_on ?W ?root (Some ''sub/../f.txt'') = ?root \<or>
        startsWith (candidate_on ?W ?root (Some ''sub/../f.txt'')) (?root @ pm_sep ?W)"
    using sw by (simp only: w3 sp) simp
  then have "safePath_on ?W ?root (Some ''sub/../f.txt'')
               = Inr (candidate_on ?W ?root (Some ''sub/../f.txt''))"
    using posix2 nr by blast
  then have ins: "safePath_on ?W ?root (Some ''sub/../f.txt'') = Inr (win ''C:/base/f.txt'')"
    by (simp only: w3)
  show ?thesis
    using base_env_abs n p1 p2 r nr sp v vd d lt cl dp np ev ins by blast
qed

text \<open>
  C2, as the code has it. A request whose token is not in the registry is rejected only
  when it is a POST that is not an initialization: the answer is HTTP 400 with JSON-RPC
  error -32000 and the registry is unchanged. A DELETE with such a token is answered 200
  and changes nothing. A GET, like an initialization POST, with such a token creates a
  new session under a fresh identifier and hands the request to its transport.
\<close>

theorem unknown_token_dispatch:
  assumes "lookup_entry req s = None"
  shows "(req_method req = POST \<and> \<not> isInitializeRequest req \<longrightarrow>
            mcp_route req uuid s =
              (JsonRpcError 400 (- 32000) no_session_message (body_id req), s))
       \<and> (req_method req = DELETE \<longrightarrow> mcp_route req uuid s = (Status 200 [], s))
       \<and> (req_method req = GET \<or> (req_method req = POST \<and> isInitializeRequest req) \<longrightarrow>
            mcp_route req uuid s =
              (HandledBy (length (transports s)),
               s\<lparr>sessions := (sessions s)(uuid \<mapsto>
                    \<lparr>transport = length (transports s), mcp = length (transports s)\<rparr>),
                 transports := transports s @ [Open]\<rparr>))"
  using assms by (auto simp: mcp_route_def createSession_def Let_def)

theorem unknown_token_dispatch_witness:
  "lookup_entry stale_post one_session = None \<and>
   mcp_route stale_post ''uuid-2'' one_session =
     (JsonRpcError 400 (- 32000) no_session_message (Some ''7''), one_session) \<and>
   mcp_route stale_delete ''uuid-2'' one_session = (Status 200 [], one_session) \<and>
   mcp_route stale_get ''uuid-2'' one_session =
     (HandledBy 1,
      \<lparr>sessions = [''uuid-1'' \<mapsto> \<lparr>transport = 0, mcp = 0\<rparr>,
                   ''uuid-2'' \<mapsto> \<lparr>transport = 1, mcp = 1\<rparr>],
       transports = [Open, Open]\<rparr>)"
proof -
  have p: "lookup_entry stale_post one_session = None"
    by (simp add: lookup_entry_def stale_post_def one_session_eq)
  have d: "lookup_entry stale_delete one_session = None"
    by (simp add: lookup_entry_def stale_delete_def one_session_eq)
  have g: "lookup_entry stale_get one_session = None"
    by (simp add: lookup_entry_def stale_get_def one_session_eq)
  show ?thesis
    using unknown_token_dispatch [OF p, of "''uuid-2''"]
          unknown_token_dispatch [OF d, of "''uuid-2''"]
          unknown_token_dispatch [OF g, of "''uuid-2''"] p
    by (simp add: stale_post_def stale_delete_def stale_get_def one_session_eq)
qed

text \<open>
  C2, as stated, fails: after the handshake that created session \<^verbatim>\<open>uuid-1\<close>, a GET
  bearing the token \<^verbatim>\<open>stale\<close>, which the registry does not hold, is handed to a new
  transport, and the registry holds a new session \<^verbatim>\<open>uuid-2\<close>.
\<close>

theorem stale_get_mints_session:
  "sessions one_session ''stale'' = None \<and>
   sessions one_session ''uuid-2'' = None \<and>
   fst (mcp_route stale_get ''uuid-2'' one_session) = HandledBy 1 \<and>
   sessions (snd (mcp_route stale_get ''uuid-2'' one_session)) ''uuid-2''
     = Some \<lparr>transport = 1, mcp = 1\<rparr>"
  by (simp add: one_session_eq mcp_route_def stale_get_def lookup_entry_def createSession_def
        Let_def)

text \<open>
  C3. Whatever the spelling of a requested path that denotes Root, and whatever the
  filesystem holds, \<^verbatim>\<open>fs_delete\<close> throws the error that Root cannot be deleted. It
  has written its console line and nothing else: no filesystem call was made and no file
  or directory has changed.
\<close>

theorem delete_root_forbidden:
  assumes "isAbsolute (cwd e)" and "target_location e (path args) = root_location e"
  shows "fs_delete e args w =
           (Inl CannotDeleteRoot,
            console_log (Log ''fs_delete'' [show_arg (path args), allowedBaseAbs e]) w)
       \<and> files (snd (fs_delete e args w)) = files w
       \<and> fs_calls (snd (fs_delete e args w)) = fs_calls w"
proof -
  have "safePath e (path args) = Inr (candidate e (path args))"
    using assms(2) by (simp only: safePath_char [OF assms(1)]) simp
  moreover have "candidate e (path args) = allowedBaseAbs e"
    using candidate_eq_root [OF assms(1), of "path args"] assms(2) by simp
  ultimately show ?thesis
    by (simp add: fs_delete_def console_log_def)
qed

theorem delete_root_forbidden_witness:
  "target_location base_env (Some ''sub/..'') = root_location base_env \<and>
   fst (fs_delete base_env root_by_detour base_world) = Inl CannotDeleteRoot \<and>
   files (snd (fs_delete base_env root_by_detour base_world)) = files base_world \<and>
   fs_calls (snd (fs_delete base_env root_by_detour base_world)) = []"
proof -
  have t: "target_location base_env (path root_by_detour) = root_location base_env"
    unfolding root_by_detour_def by code_simp
  show ?thesis
    using delete_root_forbidden [OF base_env_abs t, of base_world] t
    by (simp add: root_by_detour_def base_world_def console_log_def)
qed

text \<open>
  C4, as the code has it. Let the working directory be absolute. When Root is not the
  filesystem root and the requested location is Root or below it, \<^verbatim>\<open>safePath\<close>
  returns the normalized candidate. Whatever \<^verbatim>\<open>safePath\<close> returns is an absolute path
  that equals Root or starts with Root followed by the separator. Resolving the returned
  path again through its form relative to Root gives the same path, provided that form
  has no white space at either end (\<^verbatim>\<open>safePath\<close> trims what it is given).
\<close>

theorem resolve_roundtrip:
  assumes "isAbsolute (cwd e)"
  shows "(root_location e \<noteq> [] \<and> prefix (root_location e) (target_location e raw) \<longrightarrow>
            safePath e raw = Inr (candidate e raw))
       \<and> (safePath e raw = Inr p \<longrightarrow>
            isAbsolute p \<and> (p = allowedBaseAbs e \<or> startsWith p (allowedBaseAbs e @ sep)))
       \<and> (safePath e raw = Inr p \<and> trim (relative_to_root e p) = relative_to_root e p \<longrightarrow>
            safePath e (Some (relative_to_root e p)) = Inr p)"
proof (intro conjI impI)
  assume "root_location e \<noteq> [] \<and> prefix (root_location e) (target_location e raw)"
  then show "safePath e raw = Inr (candidate e raw)"
    by (simp only: safePath_char [OF assms]) (auto simp: strict_prefix_def)
next
  assume a: "safePath e raw = Inr p"
  from safePath_result [OF assms a] show "isAbsolute p"
    by (simp add: candidate_def isAbsolute_canon)
next
  assume a: "safePath e raw = Inr p"
  from safePath_result [OF assms a]
  show "p = allowedBaseAbs e \<or> startsWith p (allowedBaseAbs e @ sep)"
    using candidate_eq_root [OF assms, of raw] candidate_startsWith_root [OF assms, of raw]
    by auto
next
  assume "safePath e raw = Inr p \<and> trim (relative_to_root e p) = relative_to_root e p"
  then show "safePath e (Some (relative_to_root e p)) = Inr p"
    using roundtrip [OF assms] by blast
qed

theorem resolve_roundtrip_witness:
  "isAbsolute (cwd base_env) \<and> root_location base_env \<noteq> [] \<and>
   prefix (root_location base_env) (target_location base_env (Some ''sub/./dir/../f.txt'')) \<and>
   safePath base_env (Some ''sub/./dir/../f.txt'') = Inr ''/base/sub/f.txt'' \<and>
   startsWith ''/base/sub/f.txt'' (allowedBaseAbs base_env @ sep) \<and>
   relative_to_root base_env ''/base/sub/f.txt'' = ''sub/f.txt'' \<and>
   trim ''sub/f.txt'' = ''sub/f.txt'' \<and>
   safePath base_env (Some ''sub/f.txt'') = Inr ''/base/sub/f.txt''"
proof -
  have c: "candidate base_env (Some ''sub/./dir/../f.txt'') = ''/base/sub/f.txt''" by code_simp
  have r: "root_location base_env \<noteq> []" by code_simp
  have pr: "prefix (root_location base_env)
              (target_location base_env (Some ''sub/./dir/../f.txt''))"
    by code_simp
  have rel: "relative_to_root base_env ''/base/sub/f.txt'' = ''sub/f.txt''" by code_simp
  have t: "trim ''sub/f.txt'' = ''sub/f.txt''" by code_simp
  have n: "''/base/sub/f.txt'' \<noteq> allowedBaseAbs base_env" by code_simp
  show ?thesis
    using resolve_roundtrip
            [OF base_env_abs, of "Some ''sub/./dir/../f.txt''" "''/base/sub/f.txt''"]
          r pr t n base_env_abs
    by (simp add: c rel)
qed

text \<open>
  C4, as stated, fails: with Root \<^verbatim>\<open>/base\<close>, the request \<^verbatim>\<open>/base/ y\<close> (a name that
  begins with a space) resolves to \<^verbatim>\<open>/base/ y\<close>; its form relative to Root is
  \<^verbatim>\<open> y\<close>, and resolving that gives \<^verbatim>\<open>/base/y\<close>, another path.
\<close>

theorem roundtrip_breaks_on_whitespace:
  "safePath base_env (Some ''/base/ y'') = Inr ''/base/ y'' \<and>
   relative_to_root base_env ''/base/ y'' = '' y'' \<and>
   safePath base_env (Some '' y'') = Inr ''/base/y''"
  by code_simp

text \<open>
  C5, as the code has it. Let the working directory be absolute and let the requested
  path be accepted. When the resolved path can be written, \<^verbatim>\<open>fs_write\<close> of a content
  followed by \<^verbatim>\<open>fs_read\<close> with the default cap returns the content's UTF-8 bytes cut
  at 1 MiB, decoded; and two \<^verbatim>\<open>fs_append\<close> calls followed by \<^verbatim>\<open>fs_read\<close>
  return the bytes the file held before, followed by the bytes of both contents, cut at
  1 MiB, decoded. When the resolved path cannot be written (its name is refused, it is a
  directory, or a regular file lies on the way to it), \<^verbatim>\<open>fs_write\<close> and
  \<^verbatim>\<open>fs_append\<close> fail. This holds for every encoder and decoder.
\<close>

theorem write_then_read:
  assumes "isAbsolute (cwd e)" and "safePath e (Some q) = Inr abs'"
  shows "(writable w abs' \<longrightarrow>
            fst (fs_read e \<lparr>path = Some q, maxBytes = None, content = None\<rparr>
                   (snd (fs_write e \<lparr>path = Some q, maxBytes = None, content = Some c\<rparr> w)))
              = Inr (utf8_decode w (take default_limit (utf8_encode w c))))
       \<and> (writable w abs' \<longrightarrow>
            fst (fs_read e \<lparr>path = Some q, maxBytes = None, content = None\<rparr>
                   (snd (fs_append e \<lparr>path = Some q, maxBytes = None, content = Some b\<rparr>
                      (snd (fs_append e \<lparr>path = Some q, maxBytes = None, content = Some a\<rparr> w)))))
              = Inr (utf8_decode w (take default_limit
                                      (old_content w abs' @ utf8_encode w a @ utf8_encode w b))))
       \<and> (\<not> writable w abs' \<longrightarrow>
            \<not> accepted (fst (fs_write e \<lparr>path = Some q, maxBytes = None, content = Some c\<rparr> w)) \<and>
            \<not> accepted (fst (fs_append e \<lparr>path = Some q, maxBytes = None, content = Some a\<rparr> w)))"
proof (intro conjI impI)
  let ?r = "\<lparr>path = Some q, maxBytes = None, content = None\<rparr>"
  {
    assume wr: "writable w abs'"
    let ?w = "\<lparr>path = Some q, maxBytes = None, content = Some c\<rparr>"
    let ?w1 = "snd (fs_write e ?w w)"
    have "files ?w1 abs' = Some (File (utf8_encode w c))"
         "utf8_decode ?w1 = utf8_decode w" "name_accepted ?w1 abs'"
      using fs_write_writable [OF assms(1), of ?w abs' w] assms(2) wr
      by (simp_all add: content_or_empty_def writable_def)
    then show "fst (fs_read e ?r ?w1)
                = Inr (utf8_decode w (take default_limit (utf8_encode w c)))"
      using fs_read_file [of e ?r abs' ?w1] assms(2) by simp
  next
    assume wr: "writable w abs'"
    let ?a = "\<lparr>path = Some q, maxBytes = None, content = Some a\<rparr>"
    let ?b = "\<lparr>path = Some q, maxBytes = None, content = Some b\<rparr>"
    let ?w1 = "snd (fs_append e ?a w)"
    let ?w2 = "snd (fs_append e ?b ?w1)"
    have pa: "safePath e (path ?a) = Inr abs'" and pb: "safePath e (path ?b) = Inr abs'"
      using assms(2) by simp_all
    have f1: "files ?w1 abs' = Some (File (old_content w abs' @ utf8_encode w a))"
      using fs_append_writable [OF assms(1) pa wr] by (simp add: content_or_empty_def)
    have k1: "utf8_encode ?w1 = utf8_encode w" "utf8_decode ?w1 = utf8_decode w"
      using fs_append_world [OF assms(1) pa wr] by simp_all
    have w1: "writable ?w1 abs'"
      by (rule fs_append_keeps_writable [OF assms(1) pa wr])
    have "files ?w2 abs' = Some (File (old_content ?w1 abs' @ utf8_encode ?w1 b))"
      using fs_append_writable [OF assms(1) pb w1] by (simp add: content_or_empty_def)
    then have f2: "files ?w2 abs'
            = Some (File (old_content w abs' @ utf8_encode w a @ utf8_encode w b))"
      using f1 k1 by (simp add: old_content_def)
    have k2: "utf8_decode ?w2 = utf8_decode w" "name_accepted ?w2 abs'"
      using fs_append_world [OF assms(1) pb w1] k1 w1 by (simp_all add: writable_def)
    show "fst (fs_read e ?r ?w2)
            = Inr (utf8_decode w (take default_limit
                                    (old_content w abs' @ utf8_encode w a @ utf8_encode w b)))"
      using fs_read_file [of e ?r abs' ?w2] assms(2) f2 k2 by simp
  next
    assume nw: "\<not> writable w abs'"
    let ?w = "\<lparr>path = Some q, maxBytes = None, content = Some c\<rparr>"
    show "\<not> accepted (fst (fs_write e ?w w))"
      using fs_write_not_writable [OF assms(1), of ?w abs' w] assms(2) nw by simp
  next
    assume nw: "\<not> writable w abs'"
    let ?a = "\<lparr>path = Some q, maxBytes = None, content = Some a\<rparr>"
    show "\<not> accepted (fst (fs_append e ?a w))"
      using fs_append_not_writable [OF assms(1), of ?a abs' w] assms(2) nw by simp
  }
qed

theorem write_then_read_witness:
  "writable base_world ''/base/notes.txt'' \<and>
   fst (fs_read base_env \<lparr>path = Some ''notes.txt'', maxBytes = None, content = None\<rparr>
     (snd (fs_write base_env
             \<lparr>path = Some ''notes.txt'', maxBytes = None, content = Some ''hello''\<rparr>
             base_world))) = Inr ''hello'' \<and>
   utf8_encode base_world [CHR 0xE9] = [CHR 0xC3, CHR 0xA9] \<and>
   fst (fs_read base_env \<lparr>path = Some ''notes.txt'', maxBytes = None, content = None\<rparr>
     (snd (fs_write base_env
             \<lparr>path = Some ''notes.txt'', maxBytes = None, content = Some [CHR 0xE9]\<rparr>
             base_world))) = Inr [CHR 0xE9] \<and>
   fst (fs_read base_env \<lparr>path = Some ''notes.txt'', maxBytes = None, content = None\<rparr>
     (snd (fs_append base_env \<lparr>path = Some ''notes.txt'', maxBytes = None, content = Some ''b''\<rparr>
        (snd (fs_append base_env
                \<lparr>path = Some ''notes.txt'', maxBytes = None, content = Some ''a''\<rparr>
                base_world))))) = Inr ''xab'' \<and>
   \<not> writable base_world ''/base'' \<and>
   \<not> accepted (fst (fs_write base_env
                       \<lparr>path = Some [], maxBytes = None, content = Some ''hello''\<rparr> base_world)) \<and>
   \<not> accepted (fst (fs_append base_env
                       \<lparr>path = Some [], maxBytes = None, content = Some ''a''\<rparr> base_world))"
  using write_then_read [OF base_env_abs notes_path, of base_world "''hello''" "''b''" "''a''"]
        write_then_read [OF base_env_abs notes_path, of base_world "[CHR 0xE9]" "''b''" "''a''"]
        write_then_read [OF base_env_abs root_path, of base_world "''hello''" "''b''" "''a''"]
        notes_writable root_not_writable
  by (simp add: notes_old_content base_world_codec example_texts default_limit_def
        del: example_decode.simps)

text \<open>
  C5, as stated, fails: \<^verbatim>\<open>/base/notes.txt\<close> holds \<^verbatim>\<open>x\<close>; after appending \<^verbatim>\<open>a\<close>
  and then \<^verbatim>\<open>b\<close>, reading it returns \<^verbatim>\<open>xab\<close>, not \<^verbatim>\<open>ab\<close>.
\<close>

theorem append_keeps_old_content:
  "fst (fs_read base_env \<lparr>path = Some ''notes.txt'', maxBytes = None, content = None\<rparr>
     (snd (fs_append base_env \<lparr>path = Some ''notes.txt'', maxBytes = None, content = Some ''b''\<rparr>
        (snd (fs_append base_env
                \<lparr>path = Some ''notes.txt'', maxBytes = None, content = Some ''a''\<rparr>
                base_world))))) = Inr ''xab''"
  by (simp add: fs_read_def fs_append_def notes_path notes_dir base_ancestors base_world_def
        fs_mkdir_recursive_def fs_appendFile_def fs_stat_def fs_readFile_def called_def
        console_log_def is_file_def content_or_empty_def example_texts notes_names
        default_limit_def Let_def)

text \<open>
  C6. After a DELETE bearing token \<open>t\<close>, and after any further requests and
  administrative clears during which \<^verbatim>\<open>randomUUID()\<close> does not return \<open>t\<close>
  again, the registry finds no session for \<open>t\<close>; a POST bearing \<open>t\<close> that
  is not an initialization is answered HTTP 400 with JSON-RPC error -32000 and leaves
  the server as it was: it is handed to no transport and creates no session. Any POST
  that is not an initialization and for which the registry finds no session (no token,
  an empty one, or one never seen) gets the same answer.
\<close>

theorem closed_session_like_never_seen:
  assumes "req_method del = DELETE" and "headerSid del = Some t"
      and "req_method post = POST" and "headerSid post = Some t"
      and "\<not> isInitializeRequest post"
      and "list_all (never_generates t) later"
  shows "lookup_entry post (run_events later (snd (mcp_route del uc s))) = None
       \<and> mcp_route post up (run_events later (snd (mcp_route del uc s))) =
           (JsonRpcError 400 (- 32000) no_session_message (body_id post),
            run_events later (snd (mcp_route del uc s)))
       \<and> (req_method other = POST \<and> \<not> isInitializeRequest other \<and> lookup_entry other s' = None
            \<longrightarrow> mcp_route other u' s' =
                  (JsonRpcError 400 (- 32000) no_session_message (body_id other), s'))"
proof -
  have l: "lookup_entry post (run_events later (snd (mcp_route del uc s))) = None"
  proof (cases "t = []")
    case True
    then show ?thesis using assms(4) by (simp add: lookup_entry_def)
  next
    case False
    have "sessions (run_events later (snd (mcp_route del uc s))) t = None"
      using absent_after_delete [OF assms(1,2) False] assms(6) by (rule run_absent)
    then show ?thesis using assms(4) by (simp add: lookup_entry_def)
  qed
  show ?thesis
    using l rejected_without_session [OF assms(3,5) l]
          rejected_without_session [of other s' u']
    by simp
qed

theorem closed_session_like_never_seen_witness:
  "lookup_entry call_uuid1 one_session = Some \<lparr>transport = 0, mcp = 0\<rparr> \<and>
   fst (mcp_route call_uuid1 ''uuid-3'' one_session) = HandledBy 0 \<and>
   mcp_route call_uuid1 ''uuid-3''
     (run_events [McpRequest stale_get ''uuid-2'', AdminClear] (snd (mcp_route close_uuid1 ''uuid-2'' one_session))) =
     (JsonRpcError 400 (- 32000) no_session_message (Some ''2''),
      \<lparr>sessions = Map.empty, transports = [Closed, Open]\<rparr>) \<and>
   mcp_route stale_post ''uuid-3'' one_session =
     (JsonRpcError 400 (- 32000) no_session_message (Some ''7''), one_session)"
proof -
  have r: "run_events [McpRequest stale_get ''uuid-2'', AdminClear]
             (snd (mcp_route close_uuid1 ''uuid-2'' one_session))
           = \<lparr>sessions = Map.empty, transports = [Closed, Open]\<rparr>"
    unfolding close_uuid1_eq
    by (simp add: run_events_def step_event_def admin_clear_sessions_def mcp_route_def
          stale_get_def lookup_entry_def createSession_def Let_def)
  have l: "lookup_entry call_uuid1 one_session = Some \<lparr>transport = 0, mcp = 0\<rparr>"
    by (simp add: lookup_entry_def call_uuid1_def one_session_eq)
  have h: "fst (mcp_route call_uuid1 ''uuid-3'' one_session) = HandledBy 0"
    by (simp add: mcp_route_def lookup_entry_def call_uuid1_def one_session_eq)
  have n: "lookup_entry stale_post one_session = None"
    by (simp add: lookup_entry_def stale_post_def one_session_eq)
  have d: "req_method close_uuid1 = DELETE" "headerSid close_uuid1 = Some ''uuid-1''"
    by (simp_all add: close_uuid1_def)
  have c: "req_method call_uuid1 = POST" "headerSid call_uuid1 = Some ''uuid-1''"
          "\<not> isInitializeRequest call_uuid1" "body_id call_uuid1 = Some ''2''"
    by (simp_all add: call_uuid1_def)
  have o: "req_method stale_post = POST" "\<not> isInitializeRequest stale_post"
          "body_id stale_post = Some ''7''"
    by (simp_all add: stale_post_def)
  have later: "list_all (never_generates ''uuid-1'') [McpRequest stale_get ''uuid-2'', AdminClear]"
    by (simp add: never_generates_def)
  show ?thesis
    using closed_session_like_never_seen
            [OF d c(1,2,3) later, where uc = "''uuid-2''" and s = one_session
               and up = "''uuid-3''" and other = stale_post and s' = one_session
               and u' = "''uuid-3''"]
          l h n
    by (simp add: r c(4) o)
qed

text \<open>
  C7 at a server with one open session. The administrative clear empties the registry
  and answers 200, but the session's transport is still open: it was never closed. The
  DELETE request on the same server closes the transport and removes the entry.
\<close>

theorem admin_clear_leaves_transport_open:
  "admin_clear_sessions one_session =
     (Status 200 ''cleared'', \<lparr>sessions = Map.empty, transports = [Open]\<rparr>) \<and>
   mcp_route close_uuid1 ''uuid-2'' one_session =
     (Status 200 [], \<lparr>sessions = Map.empty, transports = [Closed]\<rparr>)"
  by (simp add: admin_clear_sessions_def close_uuid1_eq) (simp add: one_session_eq)

text \<open>
  C8. On every input and in every world, \<^verbatim>\<open>read_file\<close> returns what \<^verbatim>\<open>fs_read\<close>
  returns and \<^verbatim>\<open>write_file\<close> returns what \<^verbatim>\<open>fs_write\<close> returns (the same text
  or the same error), and each alias leaves the world its original leaves, but for the
  console, which the alias does not write to.
\<close>

theorem alias_tools_differ_in_console_only:
  "read_file e args w = (fst (fs_read e args w), (snd (fs_read e args w))\<lparr>console := console w\<rparr>)
 \<and> write_file e args w
      = (fst (fs_write e args w), (snd (fs_write e args w))\<lparr>console := console w\<rparr>)"
proof (intro conjI)
  show "read_file e args w
          = (fst (fs_read e args w), (snd (fs_read e args w))\<lparr>console := console w\<rparr>)"
    by (auto simp: read_file_def fs_read_def fs_stat_def fs_readFile_def absent_error_def
          called_def console_log_def Let_def
        split: sum.splits option.splits node.splits)
  show "write_file e args w
          = (fst (fs_write e args w), (snd (fs_write e args w))\<lparr>console := console w\<rparr>)"
    by (auto simp: write_file_def fs_write_def fs_mkdir_recursive_def fs_writeFile_def
          absent_error_def called_def console_log_def Let_def
        split: sum.splits option.splits node.splits)
qed

text \<open>
  C9. Let the working directory be absolute and let \<^verbatim>\<open>safePath\<close> accept a requested
  path. The returned string is \<^verbatim>\<open>allowedBaseAbs\<close>, character for character, exactly
  when the request denotes Root, and exactly when the returned path has Root's segments.
  So the comparison \<^verbatim>\<open>abs === allowedBaseAbs\<close> in \<^verbatim>\<open>fs_delete\<close> holds for every
  spelling of Root and for nothing else: \<^verbatim>\<open>fs_delete\<close> throws the error that Root
  cannot be deleted exactly when the request denotes Root, and then it has made no
  filesystem call and changed no file.
\<close>

theorem root_spelling_is_root_string:
  assumes "isAbsolute (cwd e)" and "safePath e raw = Inr p"
  shows "(p = allowedBaseAbs e) = (target_location e raw = root_location e)
       \<and> (p = allowedBaseAbs e) = (path_segments p = root_location e)
       \<and> (fst (fs_delete e \<lparr>path = raw, maxBytes = m, content = c\<rparr> w) = Inl CannotDeleteRoot)
            = (target_location e raw = root_location e)
       \<and> (target_location e raw = root_location e \<longrightarrow>
            files (snd (fs_delete e \<lparr>path = raw, maxBytes = m, content = c\<rparr> w)) = files w \<and>
            fs_calls (snd (fs_delete e \<lparr>path = raw, maxBytes = m, content = c\<rparr> w)) = fs_calls w)"
proof -
  let ?args = "\<lparr>path = raw, maxBytes = m, content = c\<rparr>"
  have p: "p = candidate e raw"
    using safePath_result [OF assms] by simp
  have seg: "path_segments p = target_location e raw"
    using target_clean [OF assms(1), of raw] by (simp add: p candidate_def path_segments_canon)
  have eq: "(p = allowedBaseAbs e) = (target_location e raw = root_location e)"
    using candidate_eq_root [OF assms(1), of raw] p by simp
  have guard: "(fst (fs_delete e ?args w) = Inl CannotDeleteRoot) = (p = allowedBaseAbs e)"
    using assms(2) delete_guard [of e ?args p w] by simp
  have quiet: "files (snd (fs_delete e ?args w)) = files w \<and>
               fs_calls (snd (fs_delete e ?args w)) = fs_calls w" if "p = allowedBaseAbs e"
    using assms(2) that by (simp add: fs_delete_def console_log_def)
  show ?thesis using seg eq guard quiet by simp
qed

theorem root_spelling_is_root_string_witness:
  "safePath base_env (Some ''sub/..'') = Inr (allowedBaseAbs base_env) \<and>
   safePath base_env (Some ''  '') = Inr (allowedBaseAbs base_env) \<and>
   safePath base_env (Some ''/base/./'') = Inr (allowedBaseAbs base_env) \<and>
   safePath base_env (Some ''sub'') = Inr ''/base/sub'' \<and>
   ''/base/sub'' \<noteq> allowedBaseAbs base_env \<and>
   fst (fs_delete base_env \<lparr>path = Some ''/base/./'', maxBytes = None, content = None\<rparr> base_world)
     = Inl CannotDeleteRoot \<and>
   files (snd (fs_delete base_env
                 \<lparr>path = Some ''/base/./'', maxBytes = None, content = None\<rparr> base_world))
     = files base_world \<and>
   fs_calls (snd (fs_delete base_env
                    \<lparr>path = Some ''/base/./'', maxBytes = None, content = None\<rparr> base_world))
     = fs_calls base_world \<and>
   fst (fs_delete base_env \<lparr>path = Some ''sub'', maxBytes = None, content = None\<rparr> base_world)
     \<noteq> Inl CannotDeleteRoot"
proof -
  have s1: "safePath base_env (Some ''sub/..'') = Inr ''/base''" by code_simp
  have s2: "safePath base_env (Some ''  '') = Inr ''/base''" by code_simp
  have s3: "safePath base_env (Some ''/base/./'') = Inr ''/base''" by code_simp
  have s4: "safePath base_env (Some ''sub'') = Inr ''/base/sub''" by code_simp
  have t1: "target_location base_env (Some ''sub/..'') = root_location base_env" by code_simp
  have t2: "target_location base_env (Some ''  '') = root_location base_env" by code_simp
  have t3: "target_location base_env (Some ''/base/./'') = root_location base_env" by code_simp
  have t4: "target_location base_env (Some ''sub'') \<noteq> root_location base_env" by code_simp
  show ?thesis
    using root_spelling_is_root_string [OF base_env_abs s1, of None None base_world]
          root_spelling_is_root_string [OF base_env_abs s2, of None None base_world]
          root_spelling_is_root_string [OF base_env_abs s3, of None None base_world]
          root_spelling_is_root_string [OF base_env_abs s4, of None None base_world]
          t1 t2 t3 t4
    by (simp add: s1 s2 s3 s4)
qed

text \<open>
  C10, as the code has it. The schemas of \<^verbatim>\<open>fs_write\<close> and \<^verbatim>\<open>fs_append\<close>
  require \<^verbatim>\<open>content\<close>: a call without it is answered with invalid params, the handler
  does not run and the world is as it was. Let the working directory be absolute and
  the requested path accepted. With the empty string as content (whose encoding is
  empty), when the resolved path can be written, the calls succeed: the message reports
  0 chars, and the file is empty after \<^verbatim>\<open>fs_write\<close> and holds what it held (nothing,
  if it was absent) after \<^verbatim>\<open>fs_append\<close>. When the resolved path cannot be written,
  they fail.
\<close>

theorem content_is_required:
  assumes "isAbsolute (cwd e)" and "safePath e (Some q) = Inr abs'"
  shows "call_tool FsWrite e \<lparr>path = Some q, maxBytes = m, content = None\<rparr> w
           = (Inl InvalidParams, w)
       \<and> call_tool FsAppend e \<lparr>path = Some q, maxBytes = m, content = None\<rparr> w
           = (Inl InvalidParams, w)
       \<and> (writable w abs' \<and> utf8_encode w [] = [] \<longrightarrow>
            fst (call_tool FsWrite e \<lparr>path = Some q, maxBytes = m, content = Some []\<rparr> w)
              = Inr (''Written 0 chars to '' @ abs') \<and>
            files (snd (call_tool FsWrite e \<lparr>path = Some q, maxBytes = m, content = Some []\<rparr> w))
              abs' = Some (File []) \<and>
            fst (call_tool FsAppend e \<lparr>path = Some q, maxBytes = m, content = Some []\<rparr> w)
              = Inr (''Appended 0 chars to '' @ abs') \<and>
            files (snd (call_tool FsAppend e \<lparr>path = Some q, maxBytes = m, content = Some []\<rparr> w))
              abs' = Some (File (old_content w abs')))
       \<and> (\<not> writable w abs' \<longrightarrow>
            \<not> accepted
                (fst (call_tool FsWrite e \<lparr>path = Some q, maxBytes = m, content = Some []\<rparr> w)) \<and>
            \<not> accepted
                (fst (call_tool FsAppend e \<lparr>path = Some q, maxBytes = m, content = Some []\<rparr> w)))"
proof -
  let ?n = "\<lparr>path = Some q, maxBytes = m, content = None\<rparr>"
  let ?s = "\<lparr>path = Some q, maxBytes = m, content = Some []\<rparr>"
  have ps: "safePath e (path ?s) = Inr abs'" using assms(2) by simp
  have refused: "call_tool FsWrite e ?n w = (Inl InvalidParams, w)"
                "call_tool FsAppend e ?n w = (Inl InvalidParams, w)"
    by (simp_all add: call_tool_def schema_accepts_def)
  have run: "call_tool FsWrite e ?s w = fs_write e ?s w"
            "call_tool FsAppend e ?s w = fs_append e ?s w"
    by (simp_all add: call_tool_def schema_accepts_def handler_def)
  have "fst (fs_write e ?s w) = Inr (''Written 0 chars to '' @ abs') \<and>
        files (snd (fs_write e ?s w)) abs' = Some (File [])"
    if "writable w abs'" "utf8_encode w [] = []"
    using fs_write_writable [OF assms(1) ps that(1)] that(2)
    by (simp add: content_length_def content_or_empty_def show_nat_0)
  moreover have "fst (fs_append e ?s w) = Inr (''Appended 0 chars to '' @ abs') \<and>
                 files (snd (fs_append e ?s w)) abs' = Some (File (old_content w abs'))"
    if "writable w abs'" "utf8_encode w [] = []"
    using fs_append_writable [OF assms(1) ps that(1)] that(2)
    by (simp add: content_length_def content_or_empty_def show_nat_0)
  moreover have "\<not> accepted (fst (fs_write e ?s w)) \<and> \<not> accepted (fst (fs_append e ?s w))"
    if "\<not> writable w abs'"
    using fs_write_not_writable [OF assms(1) ps that] fs_append_not_writable [OF assms(1) ps that]
    by simp
  ultimately show ?thesis unfolding refused run by blast
qed

theorem content_is_required_witness:
  "call_tool FsWrite base_env \<lparr>path = Some ''notes.txt'', maxBytes = None, content = None\<rparr>
     base_world = (Inl InvalidParams, base_world) \<and>
   writable base_world ''/base/notes.txt'' \<and> utf8_encode base_world [] = [] \<and>
   fst (call_tool FsWrite base_env
          \<lparr>path = Some ''notes.txt'', maxBytes = None, content = Some []\<rparr> base_world)
     = Inr ''Written 0 chars to /base/notes.txt'' \<and>
   files (snd (call_tool FsWrite base_env
                 \<lparr>path = Some ''notes.txt'', maxBytes = None, content = Some []\<rparr> base_world))
     ''/base/notes.txt'' = Some (File []) \<and>
   fst (call_tool FsAppend base_env
          \<lparr>path = Some ''notes.txt'', maxBytes = None, content = Some []\<rparr> base_world)
     = Inr ''Appended 0 chars to /base/notes.txt'' \<and>
   files (snd (call_tool FsAppend base_env
                 \<lparr>path = Some ''notes.txt'', maxBytes = None, content = Some []\<rparr> base_world))
     ''/base/notes.txt'' = Some (File ''x'') \<and>
   \<not> writable base_world ''/base'' \<and>
   \<not> accepted (fst (call_tool FsWrite base_env
                       \<lparr>path = Some [], maxBytes = None, content = Some []\<rparr> base_world)) \<and>
   \<not> accepted (fst (call_tool FsAppend base_env
                       \<lparr>path = Some [], maxBytes = None, content = Some []\<rparr> base_world))"
  using content_is_required [OF base_env_abs notes_path, of None base_world]
        content_is_required [OF base_env_abs root_path, of None base_world]
        notes_writable root_not_writable
  by (simp add: notes_old_content base_world_codec example_texts)

text \<open>
  C10, as stated, fails: \<^verbatim>\<open>fs_write\<close> called on \<^verbatim>\<open>notes.txt\<close> with the content
  absent is refused as invalid params, and \<^verbatim>\<open>/base/notes.txt\<close> still holds \<^verbatim>\<open>x\<close>:
  nothing was written.
\<close>

theorem absent_content_is_refused:
  "fst (call_tool FsWrite base_env
          \<lparr>path = Some ''notes.txt'', maxBytes = None, content = None\<rparr> base_world)
     = Inl InvalidParams \<and>
   files (snd (call_tool FsWrite base_env
                 \<lparr>path = Some ''notes.txt'', maxBytes = None, content = None\<rparr> base_world))
     ''/base/notes.txt'' = Some (File ''x'') \<and>
   fs_calls (snd (call_tool FsWrite base_env
                    \<lparr>path = Some ''notes.txt'', maxBytes = None, content = None\<rparr> base_world))
     = []"
  by (simp add: call_tool_def schema_accepts_def base_world_def)

end
